theory Spec2Isabelle
  imports Complex_Main "HOL-Library.Word"
begin

section \<open>The outside world of the OLX scraper\<close>

text \<open>
  \<^verbatim>\<open>olx.py\<close> is a sequential script over three libraries: a browser driver, an HTTP
  client and a spreadsheet writer. Its functions are embedded as state-passing functions
  over a \<open>world\<close> (file system, browser, console, and the history of the calls made),
  with the answers of the outside world supplied by an \<open>env\<close>. A Python exception is
  a value \<open>Inl e\<close> of the result.
\<close>

type_synonym bytes = "8 word list"

datatype exn =
    OSError string
  | FileExistsError string
  | FileNotFoundError string
  | UnidentifiedImageError string
  | NoSuchElementException string
  | TimeoutException
  | WebDriverException
  | IllegalCharacterError string
  | ValueError string
  | KeyError string
  | EOFError
  | SessionNotCreatedException

text \<open>What \<^verbatim>\<open>requests.get(image_url, timeout=10)\<close> gives: a response, or an exception of the
  \<^verbatim>\<open>requests.RequestException\<close> family (connection error, timeout, bad URL).\<close>

datatype http_outcome =
    Response int bytes
  | RequestFailed string

text \<open>What the operating system answers when a file is opened for writing and written:
  success, an \<^verbatim>\<open>OSError\<close> from \<^verbatim>\<open>open\<close> (nothing is touched), or an \<^verbatim>\<open>OSError\<close> from the
  write after \<^verbatim>\<open>open\<close> has created or truncated the file and \<open>n\<close> bytes have reached it.\<close>

datatype io_outcome = IoOk | OpenFails | WriteFails nat

text \<open>The lines the script prints.\<close>

datatype message =
    FailedToDownload string int
  | ErrorDownloading string string
  | Retry nat int string
  | ErrorProcessingCard exn
  | DataSavedTo string

text \<open>A card of the results page, as the five \<^verbatim>\<open>find_element\<close> calls of \<^verbatim>\<open>scrape_olx\<close> see it:
  \<open>None\<close> where the element is missing (\<^verbatim>\<open>NoSuchElementException\<close>).\<close>

record card =
  h6_text :: "string option"
  ad_price_text :: "string option"
  location_date_text :: "string option"
  img_src :: "string option"
  a_href :: "string option"

text \<open>A loaded page: its cards, the texts of its pagination items, and its
  \<^verbatim>\<open>document.body.scrollHeight\<close> as a function of the number of scroll scripts run on it
  (lazy loading makes the page grow).\<close>

record page =
  cards :: "card list"
  pagination :: "string list"
  scroll_height :: "nat \<Rightarrow> nat"

text \<open>A sheet of a workbook: rows of cell values, the anchored images
  (anchor, file, width, height), and the row and column dimensions that were set. The
  cells of a sheet in memory hold strings; in a saved workbook a cell holds a string or
  nothing.\<close>

record 'c sheet =
  title :: string
  rows :: "'c list list"
  images :: "(string \<times> string \<times> nat \<times> nat) list"
  row_height :: "nat \<rightharpoonup> nat"
  column_width :: "nat \<rightharpoonup> nat"

type_synonym worksheet = "string sheet"

text \<open>A file holds bytes or a saved workbook; \<open>Damaged\<close> is what an interrupted save of a
  workbook leaves.\<close>

datatype file_content = Raw bytes | Xlsx "string option sheet" | Damaged

datatype script = ScrollHeight | ScrollIntoView nat | ScrollToBottom

text \<open>The two lists of elements the script asks the driver for.\<close>

datatype locator = Cards | PaginationItems

text \<open>The two flavours of \<^verbatim>\<open>os.path\<close>: \<^verbatim>\<open>posixpath\<close> and \<^verbatim>\<open>ntpath\<close>.\<close>

datatype os_kind = Posix | Nt

text \<open>The history of a run. \<open>CardSeen\<close> and \<open>Downloaded\<close> are history entries of the card
  loop itself: the start of an iteration, and the value \<^verbatim>\<open>download_image\<close> returned.\<close>

datatype event =
    Get string
  | Sleep rat
  | Print message
  | OpenWb string
  | Makedirs string
  | Navigate string
  | WaitForCards
  | ExecuteScript script
  | FindElements locator
  | Prompt string
  | StartEdge
  | Quit
  | CardSeen
  | Downloaded string string bool

record world =
  fs :: "string \<rightharpoonup> file_content"
  trace :: "event list"
  requests_sent :: nat
  files_opened :: nat
  driver_calls :: nat
  current :: page
  scrolls :: nat
  stdin :: "string list"

text \<open>The environment: the \<open>k\<close>-th HTTP request of the run to a URL, the \<open>k\<close>-th opening of
  a file for writing, the page behind a URL, Python's \<^verbatim>\<open>int()\<close> on a text (\<open>None\<close>:
  \<^verbatim>\<open>ValueError\<close>), whether the imaging library recognises a file's bytes, whether
  the Edge driver starts, whether the \<open>k\<close>-th command sent to the driver fails (the
  browser has crashed, the session is lost, a script throws), and the operating
  system's path flavour.\<close>

record env =
  http :: "string \<Rightarrow> nat \<Rightarrow> http_outcome"
  disk :: "string \<Rightarrow> nat \<Rightarrow> io_outcome"
  site :: "string \<Rightarrow> page"
  py_int :: "string \<Rightarrow> int option"
  is_image :: "bytes \<Rightarrow> bool"
  edge_starts :: bool
  driver_fault :: "nat \<Rightarrow> bool"
  os_name :: os_kind

type_synonym 'a result = "(exn + 'a) \<times> world"

section \<open>Constants\<close>

definition SCROLL_PAUSE_TIME :: rat where "SCROLL_PAUSE_TIME = 3 / 10"
definition RETRIES :: int where "RETRIES = 5"
definition DELAY :: int where "DELAY = 2"
definition IMAGE_DIR :: string where "IMAGE_DIR = ''images''"

section \<open>Primitive effects\<close>

definition emit :: "event \<Rightarrow> world \<Rightarrow> world" where
  "emit e w = w\<lparr>trace := trace w @ [e]\<rparr>"

definition print :: "message \<Rightarrow> world \<Rightarrow> world" where
  "print m w = emit (Print m) w"

text \<open>\<^verbatim>\<open>time.sleep(d)\<close> raises \<^verbatim>\<open>ValueError\<close> on a negative \<open>d\<close>.\<close>

definition time_sleep :: "rat \<Rightarrow> world \<Rightarrow> unit result" where
  "time_sleep d w =
     (if d < 0 then (Inl (ValueError ''sleep length must be non-negative''), w)
      else (Inr (), emit (Sleep d) w))"

definition requests_get :: "env \<Rightarrow> string \<Rightarrow> world \<Rightarrow> http_outcome \<times> world" where
  "requests_get E url w =
     (http E url (requests_sent w),
      emit (Get url) (w\<lparr>requests_sent := requests_sent w + 1\<rparr>))"

text \<open>\<^verbatim>\<open>with open(filename, 'wb') as handler: handler.write(content)\<close>. A file name with a
  NUL character never reaches the operating system: \<^verbatim>\<open>open\<close> raises \<^verbatim>\<open>ValueError\<close>.\<close>

definition write_file :: "env \<Rightarrow> string \<Rightarrow> file_content \<Rightarrow> (nat \<Rightarrow> file_content) \<Rightarrow> world \<Rightarrow> unit result" where
  "write_file E filename whole part w =
     (if CHR 0x00 \<in> set filename
      then (Inl (ValueError ''embedded null byte''), emit (OpenWb filename) w)
      else
        let w1 = emit (OpenWb filename) (w\<lparr>files_opened := files_opened w + 1\<rparr>)
        in case disk E filename (files_opened w) of
             OpenFails \<Rightarrow> (Inl (OSError filename), w1)
           | WriteFails n \<Rightarrow> (Inl (OSError filename), w1\<lparr>fs := (fs w1)(filename \<mapsto> part n)\<rparr>)
           | IoOk \<Rightarrow> (Inr (), w1\<lparr>fs := (fs w1)(filename \<mapsto> whole)\<rparr>))"

section \<open>download_image\<close>

text \<open>
  \<^verbatim>\<open>for attempt in range(retries)\<close> runs over the attempt numbers \<open>[0..<nat retries]\<close>:
  none when \<open>retries\<close> is negative. Lines 60 and 61, the retry line and the sleep, come
  after the \<^verbatim>\<open>try\<close> statement: what \<^verbatim>\<open>time.sleep\<close> raises leaves the function.
\<close>

definition retry_pause :: "string \<Rightarrow> nat \<Rightarrow> int \<Rightarrow> int \<Rightarrow> world \<Rightarrow> unit result" where
  "retry_pause image_url attempt retries delay w =
     time_sleep (of_int delay) (print (Retry (attempt + 1) retries image_url) w)"

fun download_attempts ::
  "env \<Rightarrow> string \<Rightarrow> string \<Rightarrow> int \<Rightarrow> int \<Rightarrow> nat list \<Rightarrow> world \<Rightarrow> bool result" where
  "download_attempts E image_url filename retries delay [] w = (Inr False, w)"
| "download_attempts E image_url filename retries delay (attempt # rest) w =
     (case requests_get E image_url w of
        (Response status_code content, w1) \<Rightarrow>
          if status_code = 200 then
            (case write_file E filename (Raw content) (\<lambda>n. Raw (take n content)) w1 of
               (Inl e, w2) \<Rightarrow> (Inl e, w2)
             | (Inr _, w2) \<Rightarrow> (Inr True, w2))
          else
            (case retry_pause image_url attempt retries delay
                    (print (FailedToDownload image_url status_code) w1) of
               (Inl e, w2) \<Rightarrow> (Inl e, w2)
             | (Inr _, w2) \<Rightarrow> download_attempts E image_url filename retries delay rest w2)
      | (RequestFailed e, w1) \<Rightarrow>
          (case retry_pause image_url attempt retries delay
                  (print (ErrorDownloading image_url e) w1) of
             (Inl e, w2) \<Rightarrow> (Inl e, w2)
           | (Inr _, w2) \<Rightarrow> download_attempts E image_url filename retries delay rest w2))"

definition download_image ::
  "env \<Rightarrow> string \<Rightarrow> string \<Rightarrow> int \<Rightarrow> int \<Rightarrow> world \<Rightarrow> bool result" where
  "download_image E image_url filename retries delay w =
     download_attempts E image_url filename retries delay [0..<nat retries] w"

section \<open>Strings\<close>

text \<open>\<^verbatim>\<open>name.replace(' ', '_')\<close>\<close>

definition replace_spaces :: "string \<Rightarrow> string" where
  "replace_spaces s = map (\<lambda>c. if c = CHR '' '' then CHR ''_'' else c) s"

text \<open>\<^verbatim>\<open>s.split(sep)\<close> for a non-empty separator (the script's is \<^verbatim>\<open>" - "\<close>): the pieces
  between the occurrences of \<open>sep\<close>, found from left to right. \<open>acc\<close> is the piece being
  read.\<close>

fun split_from :: "string \<Rightarrow> string \<Rightarrow> string \<Rightarrow> string list" where
  "split_from sep acc [] = [acc]"
| "split_from sep acc (c # cs) =
     (if take (length sep) (c # cs) = sep
      then acc # split_from sep [] (drop (length sep - 1) cs)
      else split_from sep (acc @ [c]) cs)"

definition str_split :: "string \<Rightarrow> string \<Rightarrow> string list" where
  "str_split s sep = split_from sep [] s"

text \<open>\<^verbatim>\<open>str(n)\<close> for the integers the script formats.\<close>

fun str_nat :: "nat \<Rightarrow> string" where
  "str_nat n =
     (if n < 10 then [''0123456789'' ! n]
      else str_nat (n div 10) @ [''0123456789'' ! (n mod 10)])"

declare str_nat.simps [simp del]

definition str_int :: "int \<Rightarrow> string" where
  "str_int i = (if i < 0 then ''-'' @ str_nat (nat (- i)) else str_nat (nat i))"

text \<open>\<^verbatim>\<open>s.lower()\<close> on the ASCII letters.\<close>

definition lower :: "string \<Rightarrow> string" where
  "lower s = map (\<lambda>c. let n = (of_char c :: nat)
                       in if 65 \<le> n \<and> n \<le> 90 then char_of (n + 32) else c) s"

text \<open>\<^verbatim>\<open>os.path.join(a, b)\<close>. In \<^verbatim>\<open>posixpath\<close> a \<open>b\<close> that begins with a slash discards
  \<open>a\<close>. In \<^verbatim>\<open>ntpath\<close>, for an \<open>a\<close> without drive (the script's is \<^verbatim>\<open>'images'\<close>), a \<open>b\<close>
  that begins with a backslash or a slash, or that has a drive (a colon as its second
  character), discards \<open>a\<close>; the separator put between the two is a backslash.\<close>

definition posix_join :: "string \<Rightarrow> string \<Rightarrow> string" where
  "posix_join a b =
     (if take 1 b = ''/'' then b
      else if a = [] \<or> last a = CHR ''/'' then a @ b
      else a @ ''/'' @ b)"

definition nt_join :: "string \<Rightarrow> string \<Rightarrow> string" where
  "nt_join a b =
     (if take 1 b = [CHR 0x5C] \<or> take 1 b = ''/'' \<or> take 1 (drop 1 b) = '':'' then b
      else if a = [] \<or> last a = CHR 0x5C \<or> last a = CHR ''/'' then a @ b
      else a @ [CHR 0x5C] @ b)"

definition os_path_join :: "os_kind \<Rightarrow> string \<Rightarrow> string \<Rightarrow> string" where
  "os_path_join os a b = (case os of Posix \<Rightarrow> posix_join a b | Nt \<Rightarrow> nt_join a b)"

section \<open>get_user_input\<close>

definition input :: "string \<Rightarrow> world \<Rightarrow> string result" where
  "input prompt w =
     (let w1 = emit (Prompt prompt) w
      in case stdin w1 of
           [] \<Rightarrow> (Inl EOFError, w1)
         | line # pending \<Rightarrow> (Inr line, w1\<lparr>stdin := pending\<rparr>))"

definition get_user_input :: "world \<Rightarrow> string result" where
  "get_user_input w =
     (case input (''Enter search phrase and press '' @ [CHR 0x27] @ ''Enter'' @ [CHR 0x27] @ '': '') w of
        (Inl e, w1) \<Rightarrow> (Inl e, w1)
      | (Inr phrase, w1) \<Rightarrow>
          let searched_phrase = ''q-'' @ phrase
          in case input (''Specify city? Enter '' @ [CHR 0x27] @ ''Y'' @ [CHR 0x27] @ '' or ''
                          @ [CHR 0x27] @ ''N'' @ [CHR 0x27] @ '': '') w1 of
               (Inl e, w2) \<Rightarrow> (Inl e, w2)
             | (Inr answer, w2) \<Rightarrow>
                 let city_search = lower answer
                 in if city_search = ''y''
                    then (case input ''Enter city name (optional): '' w2 of
                            (Inl e, w3) \<Rightarrow> (Inl e, w3)
                          | (Inr searched_city, w3) \<Rightarrow>
                              (Inr (''https://www.olx.ua/uk/list/'' @ searched_city @ ''/''
                                    @ searched_phrase @ ''/''), w3))
                    else (Inr (''https://www.olx.ua/uk/list/'' @ [] @ ''/''
                               @ searched_phrase @ ''/''), w2))"

section \<open>Commands to the browser driver\<close>

text \<open>Every method call on \<^verbatim>\<open>driver\<close> is a command sent to the browser; a command that
  fails raises \<^verbatim>\<open>WebDriverException\<close>. The reads of a card's own elements (lines 84 to
  89) are part of the card: a missing element is \<open>None\<close> in the \<open>card\<close> record.\<close>

definition driver_command :: "env \<Rightarrow> event \<Rightarrow> world \<Rightarrow> unit result" where
  "driver_command E call w =
     (let w1 = emit call (w\<lparr>driver_calls := driver_calls w + 1\<rparr>)
      in if driver_fault E (driver_calls w) then (Inl WebDriverException, w1)
         else (Inr (), w1))"

text \<open>\<^verbatim>\<open>driver.execute_script(s)\<close>: a scroll script moves the page; reading the height
  does not.\<close>

definition execute_script :: "env \<Rightarrow> script \<Rightarrow> world \<Rightarrow> unit result" where
  "execute_script E s w =
     (case driver_command E (ExecuteScript s) w of
        (Inl e, w1) \<Rightarrow> (Inl e, w1)
      | (Inr _, w1) \<Rightarrow>
          (Inr (), if s = ScrollHeight then w1 else w1\<lparr>scrolls := scrolls w1 + 1\<rparr>))"

definition body_scroll_height :: "world \<Rightarrow> nat" where
  "body_scroll_height w = scroll_height (current w) (scrolls w)"

text \<open>\<^verbatim>\<open>driver.execute_script("return document.body.scrollHeight")\<close>\<close>

definition read_scroll_height :: "env \<Rightarrow> world \<Rightarrow> nat result" where
  "read_scroll_height E w =
     (case execute_script E ScrollHeight w of
        (Inl e, w1) \<Rightarrow> (Inl e, w1)
      | (Inr _, w1) \<Rightarrow> (Inr (body_scroll_height w1), w1))"

text \<open>\<^verbatim>\<open>driver.find_elements(By.CSS_SELECTOR, ...)\<close> for the cards and for the pagination
  items of the loaded page.\<close>

definition find_cards :: "env \<Rightarrow> world \<Rightarrow> (card list) result" where
  "find_cards E w =
     (case driver_command E (FindElements Cards) w of
        (Inl e, w1) \<Rightarrow> (Inl e, w1)
      | (Inr _, w1) \<Rightarrow> (Inr (cards (current w1)), w1))"

definition find_pagination :: "env \<Rightarrow> world \<Rightarrow> (string list) result" where
  "find_pagination E w =
     (case driver_command E (FindElements PaginationItems) w of
        (Inl e, w1) \<Rightarrow> (Inl e, w1)
      | (Inr _, w1) \<Rightarrow> (Inr (pagination (current w1)), w1))"

text \<open>\<^verbatim>\<open>driver.get(url)\<close>\<close>

definition driver_get :: "env \<Rightarrow> string \<Rightarrow> world \<Rightarrow> unit result" where
  "driver_get E url w =
     (case driver_command E (Navigate url) w of
        (Inl e, w1) \<Rightarrow> (Inl e, w1)
      | (Inr _, w1) \<Rightarrow> (Inr (), w1\<lparr>current := site E url, scrolls := 0\<rparr>))"

text \<open>\<^verbatim>\<open>WebDriverWait(driver, 10).until(presence_of_all_elements_located(cards))\<close>: on a page
  without any card the wait ends in a \<^verbatim>\<open>TimeoutException\<close>.\<close>

definition wait_for_cards :: "env \<Rightarrow> world \<Rightarrow> unit result" where
  "wait_for_cards E w =
     (case driver_command E WaitForCards w of
        (Inl e, w1) \<Rightarrow> (Inl e, w1)
      | (Inr _, w1) \<Rightarrow>
          if cards (current w1) = [] then (Inl TimeoutException, w1) else (Inr (), w1))"

section \<open>slow_scroll_page\<close>

text \<open>The body of \<^verbatim>\<open>for i, card in enumerate(cards)\<close>, lines 34 to 37.\<close>

definition scroll_to_card :: "env \<Rightarrow> rat \<Rightarrow> nat \<Rightarrow> world \<Rightarrow> unit result" where
  "scroll_to_card E scroll_pause i w =
     (case execute_script E (ScrollIntoView i) w of
        (Inl e, w1) \<Rightarrow> (Inl e, w1)
      | (Inr _, w1) \<Rightarrow>
          (case (if i mod 5 = 0 then time_sleep (2 / 10) w1 else (Inr (), w1)) of
             (Inl e, w2) \<Rightarrow> (Inl e, w2)
           | (Inr _, w2) \<Rightarrow> time_sleep scroll_pause w2))"

fun scroll_cards :: "env \<Rightarrow> rat \<Rightarrow> nat \<Rightarrow> card list \<Rightarrow> world \<Rightarrow> unit result" where
  "scroll_cards E scroll_pause i [] w = (Inr (), w)"
| "scroll_cards E scroll_pause i (c # rest) w =
     (case scroll_to_card E scroll_pause i w of
        (Inl e, w1) \<Rightarrow> (Inl e, w1)
      | (Inr _, w1) \<Rightarrow> scroll_cards E scroll_pause (i + 1) rest w1)"

text \<open>Lines 40 to 42: scroll to the bottom, pause, read the height.\<close>

definition scroll_once :: "env \<Rightarrow> rat \<Rightarrow> world \<Rightarrow> nat result" where
  "scroll_once E scroll_pause w =
     (case execute_script E ScrollToBottom w of
        (Inl e, w1) \<Rightarrow> (Inl e, w1)
      | (Inr _, w1) \<Rightarrow>
          (case time_sleep scroll_pause w1 of
             (Inl e, w2) \<Rightarrow> (Inl e, w2)
           | (Inr _, w2) \<Rightarrow> read_scroll_height E w2))"

text \<open>The \<^verbatim>\<open>while True\<close> loop ends when two successive heights agree, or with an
  exception; on a page that keeps growing it never ends, and the value is \<open>None\<close>.\<close>

partial_function (option) scroll_to_bottom ::
  "env \<Rightarrow> rat \<Rightarrow> nat \<Rightarrow> world \<Rightarrow> unit result option" where
  "scroll_to_bottom E scroll_pause last_height w =
     (case scroll_once E scroll_pause w of
        (Inl e, w1) \<Rightarrow> Some (Inl e, w1)
      | (Inr new_height, w1) \<Rightarrow>
          if new_height = last_height then Some (Inr (), w1)
          else scroll_to_bottom E scroll_pause new_height w1)"

declare scroll_to_bottom.simps [code]

definition slow_scroll_page :: "env \<Rightarrow> rat \<Rightarrow> world \<Rightarrow> unit result option" where
  "slow_scroll_page E scroll_pause w =
     (case read_scroll_height E w of
        (Inl e, w1) \<Rightarrow> Some (Inl e, w1)
      | (Inr last_height, w1) \<Rightarrow>
          (case find_cards E w1 of
             (Inl e, w2) \<Rightarrow> Some (Inl e, w2)
           | (Inr cs, w2) \<Rightarrow>
               (case scroll_cards E scroll_pause 0 cs w2 of
                  (Inl e, w3) \<Rightarrow> Some (Inl e, w3)
                | (Inr _, w3) \<Rightarrow> scroll_to_bottom E scroll_pause last_height w3)))"

section \<open>scrape_olx\<close>

text \<open>A scraped listing is a Python dict from field names to strings.\<close>

type_synonym listing = "string \<rightharpoonup> string"

text \<open>Lines 67 to 69, and again 105 to 107: load, wait for the cards, scroll.\<close>

definition get_wait_scroll :: "env \<Rightarrow> string \<Rightarrow> world \<Rightarrow> unit result option" where
  "get_wait_scroll E url w =
     (case driver_get E url w of
        (Inl e, w1) \<Rightarrow> Some (Inl e, w1)
      | (Inr _, w1) \<Rightarrow>
          (case wait_for_cards E w1 of
             (Inl e, w2) \<Rightarrow> Some (Inl e, w2)
           | (Inr _, w2) \<Rightarrow> slow_scroll_page E SCROLL_PAUSE_TIME w2))"

text \<open>\<^verbatim>\<open>number_of_pages = int(pages[-1].text) if pages else 1\<close>, for the texts of the
  pagination items found.\<close>

definition number_of_pages :: "env \<Rightarrow> string list \<Rightarrow> exn + int" where
  "number_of_pages E pages =
     (if pages \<noteq> []
      then (case py_int E (last pages) of
              None \<Rightarrow> Inl (ValueError (last pages))
            | Some n \<Rightarrow> Inr n)
      else Inr 1)"

text \<open>\<^verbatim>\<open>os.makedirs(IMAGE_DIR, exist_ok=True)\<close> fails when the path is a regular file.\<close>

definition makedirs :: "string \<Rightarrow> world \<Rightarrow> unit result" where
  "makedirs dir w =
     (let w1 = emit (Makedirs dir) w
      in if fs w1 dir \<noteq> None then (Inl (FileExistsError dir), w1) else (Inr (), w1))"

definition find_element :: "string \<Rightarrow> string option \<Rightarrow> exn + string" where
  "find_element selector found =
     (case found of None \<Rightarrow> Inl (NoSuchElementException selector) | Some t \<Rightarrow> Inr t)"

text \<open>Lines 84 to 89: name, price, location, time posted, image URL, ad URL, read in
  this order; the first missing element raises.\<close>

definition extract_card ::
  "card \<Rightarrow> exn + (string \<times> string \<times> string \<times> string \<times> string \<times> string)" where
  \<open>extract_card c =
     (case find_element ''h6'' (h6_text c) of
        Inl e \<Rightarrow> Inl e
      | Inr name \<Rightarrow>
     (case find_element ''p[data-testid="ad-price"]'' (ad_price_text c) of
        Inl e \<Rightarrow> Inl e
      | Inr price \<Rightarrow>
     (case find_element ''p[data-testid="location-date"]'' (location_date_text c) of
        Inl e \<Rightarrow> Inl e
      | Inr location_date \<Rightarrow>
          let location_time = str_split location_date '' - '';
              (location, timeposted) =
                (if length location_time = 2
                 then (location_time ! 0, location_time ! 1) else ('''', ''''))
          in
     (case find_element ''img[src]'' (img_src c) of
        Inl e \<Rightarrow> Inl e
      | Inr image_url \<Rightarrow>
     (case find_element ''a[href]'' (a_href c) of
        Inl e \<Rightarrow> Inl e
      | Inr ad_url \<Rightarrow> Inr (name, price, location, timeposted, image_url, ad_url))))))\<close>

text \<open>Line 91: \<^verbatim>\<open>os.path.join(IMAGE_DIR, f"{name.replace(' ', '_')}.jpg")\<close>\<close>

definition img_filename_of :: "os_kind \<Rightarrow> string \<Rightarrow> string" where
  "img_filename_of os name = os_path_join os IMAGE_DIR (replace_spaces name @ ''.jpg'')"

definition listing_dict ::
  "string \<Rightarrow> string \<Rightarrow> string \<Rightarrow> string \<Rightarrow> string \<Rightarrow> string \<Rightarrow> listing" where
  "listing_dict name price location timeposted img_filename ad_url =
     [''Name'' \<mapsto> name, ''Price'' \<mapsto> price, ''Location'' \<mapsto> location,
      ''Time Posted'' \<mapsto> timeposted, ''Image File'' \<mapsto> img_filename, ''Ad URL'' \<mapsto> ad_url]"

text \<open>The body of \<^verbatim>\<open>for card in cards\<close>: the \<^verbatim>\<open>try\<close> block and its
  \<^verbatim>\<open>except Exception\<close>, which prints and goes on.\<close>

definition process_card :: "env \<Rightarrow> card \<Rightarrow> listing list \<Rightarrow> world \<Rightarrow> listing list \<times> world" where
  "process_card E c data w0 =
     (let w = emit CardSeen w0
      in case extract_card c of
           Inl e \<Rightarrow> (data, print (ErrorProcessingCard e) w)
         | Inr (name, price, location, timeposted, image_url, ad_url) \<Rightarrow>
             let img_filename = img_filename_of (os_name E) name
             in case download_image E image_url img_filename RETRIES DELAY w of
                  (Inl e, w1) \<Rightarrow> (data, print (ErrorProcessingCard e) w1)
                | (Inr ok, w1) \<Rightarrow>
                    let w2 = emit (Downloaded image_url img_filename ok) w1
                    in if ok
                       then (data @ [listing_dict name price location timeposted img_filename ad_url], w2)
                       else (data, w2))"

fun scrape_cards :: "env \<Rightarrow> card list \<Rightarrow> listing list \<Rightarrow> world \<Rightarrow> listing list \<times> world" where
  "scrape_cards E [] data w = (data, w)"
| "scrape_cards E (c # rest) data w =
     (case process_card E c data w of (data1, w1) \<Rightarrow> scrape_cards E rest data1 w1)"

text \<open>\<^verbatim>\<open>for page in range(1, number_of_pages + 1)\<close>, over the page numbers still to do.\<close>

fun scrape_pages ::
  "env \<Rightarrow> string \<Rightarrow> int \<Rightarrow> int list \<Rightarrow> listing list \<Rightarrow> world \<Rightarrow> (listing list) result option" where
  "scrape_pages E websitelink n [] data w = Some (Inr data, w)"
| "scrape_pages E websitelink n (page # rest) data w =
     (case find_cards E w of
        (Inl e, w0) \<Rightarrow> Some (Inl e, w0)
      | (Inr cs, w0) \<Rightarrow>
          (case scrape_cards E cs data w0 of
             (data1, w1) \<Rightarrow>
               if page < n
               then (case get_wait_scroll E (websitelink @ ''&page='' @ str_int (page + 1)) w1 of
                       None \<Rightarrow> None
                     | Some (Inl e, w2) \<Rightarrow> Some (Inl e, w2)
                     | Some (Inr _, w2) \<Rightarrow> scrape_pages E websitelink n rest data1 w2)
               else scrape_pages E websitelink n rest data1 w1))"

definition scrape_olx :: "env \<Rightarrow> string \<Rightarrow> world \<Rightarrow> (listing list) result option" where
  "scrape_olx E websitelink w =
     (case get_wait_scroll E websitelink w of
        None \<Rightarrow> None
      | Some (Inl e, w1) \<Rightarrow> Some (Inl e, w1)
      | Some (Inr _, w1) \<Rightarrow>
          (case find_pagination E w1 of
             (Inl e, w2) \<Rightarrow> Some (Inl e, w2)
           | (Inr pages, w2) \<Rightarrow>
               (case number_of_pages E pages of
                  Inl e \<Rightarrow> Some (Inl e, w2)
                | Inr n \<Rightarrow>
                    (case makedirs IMAGE_DIR w2 of
                       (Inl e, w3) \<Rightarrow> Some (Inl e, w3)
                     | (Inr _, w3) \<Rightarrow> scrape_pages E websitelink n [1..n] [] w3))))"

section \<open>save_to_excel\<close>

text \<open>The workbook library at the level of its interface. A string that goes into a
  cell is cut to its first 32767 characters and then refused, with
  \<^verbatim>\<open>IllegalCharacterError\<close>, if it holds a control character other than tab, line feed
  and carriage return (codes 0 to 8, 11, 12 and 14 to 31).\<close>

definition illegal_character :: "char \<Rightarrow> bool" where
  "illegal_character c =
     (let n = (of_char c :: nat) in n \<le> 8 \<or> n = 11 \<or> n = 12 \<or> (14 \<le> n \<and> n \<le> 31))"

definition check_string :: "string \<Rightarrow> exn + string" where
  "check_string v =
     (let v' = take 32767 v
      in if list_ex illegal_character v' then Inl (IllegalCharacterError v') else Inr v')"

fun check_cells :: "string list \<Rightarrow> exn + string list" where
  "check_cells [] = Inr []"
| "check_cells (v # vs) =
     (case check_string v of
        Inl e \<Rightarrow> Inl e
      | Inr v' \<Rightarrow> (case check_cells vs of Inl e \<Rightarrow> Inl e | Inr vs' \<Rightarrow> Inr (v' # vs')))"

definition new_worksheet :: worksheet where
  "new_worksheet =
     \<lparr>title = ''Sheet'', rows = [], images = [], row_height = Map.empty,
      column_width = Map.empty\<rparr>"

text \<open>\<^verbatim>\<open>ws.append(row)\<close> adds a row of cell values below the last one, checking the values
  from left to right; \<^verbatim>\<open>ws.max_row\<close> is the number of the last row.\<close>

definition ws_append :: "string list \<Rightarrow> worksheet \<Rightarrow> exn + worksheet" where
  "ws_append row ws =
     (case check_cells row of
        Inl e \<Rightarrow> Inl e
      | Inr cells \<Rightarrow> Inr (ws\<lparr>rows := rows ws @ [cells]\<rparr>))"

definition max_row :: "worksheet \<Rightarrow> nat" where
  "max_row ws = (if rows ws = [] then 1 else length (rows ws))"

definition max_column :: "worksheet \<Rightarrow> nat" where
  "max_column ws = max 1 (fold max (map length (rows ws)) 0)"

definition headers :: "string list" where
  "headers = [''Name'', ''Price'', ''Location'', ''Time Posted'', ''Image'', ''Ad URL'']"

text \<open>\<^verbatim>\<open>entry[key]\<close>\<close>

definition getitem :: "listing \<Rightarrow> string \<Rightarrow> exn + string" where
  "getitem entry key = (case entry key of None \<Rightarrow> Inl (KeyError key) | Some v \<Rightarrow> Inr v)"

text \<open>The list literal of line 121, its items evaluated from left to right.\<close>

definition entry_row :: "listing \<Rightarrow> exn + string list" where
  "entry_row entry =
     (case getitem entry ''Name'' of Inl e \<Rightarrow> Inl e | Inr name \<Rightarrow>
     (case getitem entry ''Price'' of Inl e \<Rightarrow> Inl e | Inr price \<Rightarrow>
     (case getitem entry ''Location'' of Inl e \<Rightarrow> Inl e | Inr location \<Rightarrow>
     (case getitem entry ''Time Posted'' of Inl e \<Rightarrow> Inl e | Inr timeposted \<Rightarrow>
     (case getitem entry ''Ad URL'' of Inl e \<Rightarrow> Inl e | Inr ad_url \<Rightarrow>
        Inr [name, price, location, timeposted, '''', ad_url])))))"

text \<open>\<^verbatim>\<open>Image(path)\<close> opens the file with the imaging library.\<close>

definition load_image :: "env \<Rightarrow> world \<Rightarrow> string \<Rightarrow> exn + string" where
  "load_image E w path =
     (case fs w path of
        None \<Rightarrow> Inl (FileNotFoundError path)
      | Some (Raw b) \<Rightarrow> if is_image E b then Inr path else Inl (UnidentifiedImageError path)
      | Some _ \<Rightarrow> Inl (UnidentifiedImageError path))"

text \<open>The body of \<^verbatim>\<open>for entry in data\<close>, lines 121 to 126.\<close>

definition add_entry :: "env \<Rightarrow> world \<Rightarrow> listing \<Rightarrow> worksheet \<Rightarrow> exn + worksheet" where
  "add_entry E w entry ws =
     (case entry_row entry of
        Inl e \<Rightarrow> Inl e
      | Inr row \<Rightarrow>
          (case ws_append row ws of
             Inl e \<Rightarrow> Inl e
           | Inr ws1 \<Rightarrow>
               (case getitem entry ''Image File'' of
                  Inl e \<Rightarrow> Inl e
                | Inr image_file \<Rightarrow>
                    (case load_image E w image_file of
                       Inl e \<Rightarrow> Inl e
                     | Inr img \<Rightarrow>
                         let (width, height) = (215, 152);
                             ws2 = ws1\<lparr>images := images ws1
                                     @ [(''E'' @ str_nat (max_row ws1), img, width, height)]\<rparr>
                         in Inr (ws2\<lparr>row_height := (row_height ws2)(max_row ws2 \<mapsto> height)\<rparr>)))))"

fun add_entries :: "env \<Rightarrow> world \<Rightarrow> listing list \<Rightarrow> worksheet \<Rightarrow> exn + worksheet" where
  "add_entries E w [] ws = Inr ws"
| "add_entries E w (entry # rest) ws =
     (case add_entry E w entry ws of
        Inl e \<Rightarrow> Inl e
      | Inr ws1 \<Rightarrow> add_entries E w rest ws1)"

text \<open>Lines 128 to 130: every column as wide as its longest cell value plus 2. Columns
  are numbered from 1 (column A); a cell that a short row lacks reads \<^verbatim>\<open>None\<close>.\<close>

definition cell_str :: "string list \<Rightarrow> nat \<Rightarrow> string" where
  "cell_str row j = (if j < length row then row ! j else ''None'')"

definition autosize_columns :: "worksheet \<Rightarrow> worksheet" where
  "autosize_columns ws =
     fold (\<lambda>j ws'. ws'\<lparr>column_width := (column_width ws')
              (j + 1 \<mapsto> fold max (map (\<lambda>row. length (cell_str row j)) (rows ws)) 0 + 2)\<rparr>)
       [0..<max_column ws] ws"

text \<open>What \<^verbatim>\<open>wb.save\<close> writes, at the level of cell values: a cell that holds the empty
  string is written as a cell without value, and reads back as \<^verbatim>\<open>None\<close>. The XML
  encoding of the strings inside the file is below this level.\<close>

definition written_cell :: "string \<Rightarrow> string option" where
  "written_cell v = (if v = [] then None else Some v)"

definition written :: "worksheet \<Rightarrow> string option sheet" where
  "written ws =
     \<lparr>title = title ws, rows = map (map written_cell) (rows ws), images = images ws,
      row_height = row_height ws, column_width = column_width ws\<rparr>"

definition save_to_excel :: "env \<Rightarrow> listing list \<Rightarrow> string \<Rightarrow> world \<Rightarrow> unit result" where
  "save_to_excel E data filename w =
     (case ws_append headers (new_worksheet\<lparr>title := ''Ad Data''\<rparr>) of
        Inl e \<Rightarrow> (Inl e, w)
      | Inr ws1 \<Rightarrow>
          (case add_entries E w data ws1 of
             Inl e \<Rightarrow> (Inl e, w)
           | Inr ws2 \<Rightarrow>
               (case write_file E filename (Xlsx (written (autosize_columns ws2)))
                       (\<lambda>n. Damaged) w of
                  (Inl e, w1) \<Rightarrow> (Inl e, w1)
                | (Inr _, w1) \<Rightarrow> (Inr (), print (DataSavedTo filename) w1))))"

section \<open>main\<close>

text \<open>\<^verbatim>\<open>try: ... finally: driver.quit()\<close> quits the driver on every way out of the block
  and lets an exception go on to the caller. (\<^verbatim>\<open>quit\<close> of the Edge driver catches the
  errors of its own command, so it is not one of the driver commands that can fail.)\<close>

definition main :: "env \<Rightarrow> world \<Rightarrow> unit result option" where
  "main E w =
     (case get_user_input w of
        (Inl e, w1) \<Rightarrow> Some (Inl e, w1)
      | (Inr websitelink, w1) \<Rightarrow>
          let w2 = emit StartEdge w1
          in if \<not> edge_starts E then Some (Inl SessionNotCreatedException, w2)
             else (case scrape_olx E websitelink w2 of
                     None \<Rightarrow> None
                   | Some (Inl e, w3) \<Rightarrow> Some (Inl e, emit Quit w3)
                   | Some (Inr data, w3) \<Rightarrow>
                       (case save_to_excel E data ''ad_data_with_images.xlsx'' w3 of
                          (Inl e, w4) \<Rightarrow> Some (Inl e, emit Quit w4)
                        | (Inr _, w4) \<Rightarrow> Some (Inr (), emit Quit w4))))"

section \<open>Vocabulary of the properties\<close>

text \<open>The events a call has added to the history.\<close>

definition new_events :: "world \<Rightarrow> world \<Rightarrow> event list" where
  "new_events w w' = drop (length (trace w)) (trace w')"

fun is_get :: "event \<Rightarrow> bool" where
  "is_get (Get url) = True"
| "is_get e = False"

fun is_get_or_sleep :: "event \<Rightarrow> bool" where
  "is_get_or_sleep (Get url) = True"
| "is_get_or_sleep (Sleep d) = True"
| "is_get_or_sleep e = False"

text \<open>The target of a download can be written: its name has no NUL character, and the
  operating system lets the next file be opened and written.\<close>

definition writable :: "env \<Rightarrow> world \<Rightarrow> string \<Rightarrow> bool" where
  "writable E w filename \<longleftrightarrow>
     CHR 0x00 \<notin> set filename \<and> disk E filename (files_opened w) = IoOk"

fun download_event :: "event \<Rightarrow> bool" where
  "download_event (Get url) = True"
| "download_event (Sleep d) = True"
| "download_event (Print m) = True"
| "download_event (OpenWb f) = True"
| "download_event e = False"

text \<open>An attempt succeeds when it gets a response with status 200.\<close>

fun succeeds :: "http_outcome \<Rightarrow> bool" where
  "succeeds (Response status_code content) = (status_code = 200)"
| "succeeds (RequestFailed e) = False"

fun body :: "http_outcome \<Rightarrow> bytes" where
  "body (Response status_code content) = content"
| "body (RequestFailed e) = []"

text \<open>The outcome of the \<open>k\<close>-th attempt (counted from 1) of a call of \<^verbatim>\<open>download_image\<close>
  that starts in \<open>w\<close>, and the outcome of the last request sent before \<open>w\<close>.\<close>

definition attempt_outcome :: "env \<Rightarrow> string \<Rightarrow> world \<Rightarrow> nat \<Rightarrow> http_outcome" where
  "attempt_outcome E url w k = http E url (requests_sent w + k - 1)"

definition last_response :: "env \<Rightarrow> string \<Rightarrow> world \<Rightarrow> http_outcome" where
  "last_response E url w = http E url (requests_sent w - 1)"

text \<open>A call that does not return \<open>False\<close> has ended either in the exception of a
  refused sleep, after a failed attempt and with the file system as it was, or at a
  response with status 200; what is in the file then depends on the file name and on
  the disk.\<close>

definition stopped_at_sleep :: "env \<Rightarrow> string \<Rightarrow> int \<Rightarrow> world \<Rightarrow> exn + bool \<Rightarrow> world \<Rightarrow> bool" where
  "stopped_at_sleep E url delay w res w' \<longleftrightarrow>
     res = Inl (ValueError ''sleep length must be non-negative'') \<and> delay < 0
     \<and> requests_sent w < requests_sent w' \<and> \<not> succeeds (last_response E url w')
     \<and> fs w' = fs w \<and> files_opened w' = files_opened w"

definition stopped_at_file :: "env \<Rightarrow> string \<Rightarrow> string \<Rightarrow> world \<Rightarrow> exn + bool \<Rightarrow> world \<Rightarrow> bool" where
  "stopped_at_file E url filename w res w' \<longleftrightarrow>
     requests_sent w < requests_sent w' \<and> succeeds (last_response E url w')
     \<and> (if CHR 0x00 \<in> set filename
        then res = Inl (ValueError ''embedded null byte'')
             \<and> fs w' = fs w \<and> files_opened w' = files_opened w
        else files_opened w' = Suc (files_opened w)
             \<and> (case disk E filename (files_opened w) of
                   IoOk \<Rightarrow> res = Inr True
                     \<and> fs w' = (fs w)(filename \<mapsto> Raw (body (last_response E url w')))
                 | OpenFails \<Rightarrow> res = Inl (OSError filename) \<and> fs w' = fs w
                 | WriteFails n \<Rightarrow> res = Inl (OSError filename)
                     \<and> fs w' = (fs w)(filename \<mapsto> Raw (take n (body (last_response E url w'))))))"

section \<open>Example worlds\<close>

definition blank_page :: page where
  "blank_page = \<lparr>cards = [], pagination = [], scroll_height = (\<lambda>k. 0)\<rparr>"

definition w0 :: world where
  "w0 = \<lparr>fs = Map.empty, trace = [], requests_sent = 0, files_opened = 0,
         driver_calls = 0, current = blank_page, scrolls = 0, stdin = []\<rparr>"

text \<open>Python's \<^verbatim>\<open>int()\<close> on the texts of the examples: non-empty strings of digits.\<close>

fun digit_value :: "char \<Rightarrow> nat option" where
  "digit_value c =
     (let n = (of_char c :: nat) in if 48 \<le> n \<and> n \<le> 57 then Some (n - 48) else None)"

fun decimal_from :: "nat \<Rightarrow> string \<Rightarrow> int option" where
  "decimal_from acc [] = Some (int acc)"
| "decimal_from acc (c # cs) =
     (case digit_value c of None \<Rightarrow> None | Some d \<Rightarrow> decimal_from (10 * acc + d) cs)"

definition decimal :: "string \<Rightarrow> int option" where
  "decimal s = (if s = [] then None else decimal_from 0 s)"

text \<open>A GIF image of one pixel, 42 bytes long. Of the byte strings of the examples it
  is the only one that the imaging library recognises.\<close>

definition tiny_gif :: bytes where
  "tiny_gif =
     [71, 73, 70, 56, 57, 97, 1, 0, 1, 0, 128, 0, 0, 0, 0, 0, 255, 255, 255, 33, 249,
      4, 1, 0, 0, 0, 0, 44, 0, 0, 0, 0, 1, 0, 1, 0, 0, 2, 1, 68, 0, 59]"

text \<open>The environment of the examples: a POSIX system whose browser driver starts and
  does not fail.\<close>

definition example_env ::
  "(string \<Rightarrow> nat \<Rightarrow> http_outcome) \<Rightarrow> (string \<Rightarrow> nat \<Rightarrow> io_outcome) \<Rightarrow> (string \<Rightarrow> page) \<Rightarrow> env" where
  "example_env h d s =
     \<lparr>http = h, disk = d, site = s, py_int = decimal, is_image = (\<lambda>b. b = tiny_gif),
      edge_starts = True, driver_fault = (\<lambda>k. False), os_name = Posix\<rparr>"

definition always_404 :: "string \<Rightarrow> nat \<Rightarrow> http_outcome" where
  "always_404 url k = Response 404 []"

text \<open>A server that times out, then answers 503, then serves the bytes 1, 2, 3.\<close>

definition third_time_lucky :: "string \<Rightarrow> nat \<Rightarrow> http_outcome" where
  "third_time_lucky url k =
     (if k = 0 then RequestFailed ''timed out''
      else if k = 1 then Response 503 []
      else Response 200 [1, 2, 3])"

definition always_200 :: "string \<Rightarrow> nat \<Rightarrow> http_outcome" where
  "always_200 url k = Response 200 [7, 7]"

definition disk_ok :: "string \<Rightarrow> nat \<Rightarrow> io_outcome" where
  "disk_ok f k = IoOk"

definition disk_read_only :: "string \<Rightarrow> nat \<Rightarrow> io_outcome" where
  "disk_read_only f k = OpenFails"

definition disk_full :: "string \<Rightarrow> nat \<Rightarrow> io_outcome" where
  "disk_full f k = WriteFails 0"

text \<open>Events of the browser and of the card loop.\<close>

fun is_navigate :: "event \<Rightarrow> bool" where
  "is_navigate (Navigate url) = True"
| "is_navigate e = False"

fun is_card_seen :: "event \<Rightarrow> bool" where
  "is_card_seen CardSeen = True"
| "is_card_seen e = False"

fun is_download_ok :: "event \<Rightarrow> bool" where
  "is_download_ok (Downloaded url filename ok) = ok"
| "is_download_ok e = False"

text \<open>Events that are neither a navigation nor an entry of the card loop.\<close>

fun quiet :: "event \<Rightarrow> bool" where
  "quiet (Navigate url) = False"
| "quiet CardSeen = False"
| "quiet (Downloaded url filename ok) = False"
| "quiet e = True"

text \<open>A step that leaves everything but the history, the scroll position and the count
  of driver commands as it was, and adds quiet events only.\<close>

definition quiet_step :: "world \<Rightarrow> world \<Rightarrow> bool" where
  "quiet_step w w' \<longleftrightarrow>
     (\<exists>es. trace w' = trace w @ es \<and> (\<forall>e \<in> set es. quiet e))
     \<and> fs w' = fs w \<and> current w' = current w \<and> requests_sent w' = requests_sent w
     \<and> files_opened w' = files_opened w \<and> stdin w' = stdin w"

text \<open>The record that a card gives when all its elements are found.\<close>

definition card_listing :: "os_kind \<Rightarrow> card \<Rightarrow> listing option" where
  "card_listing os c =
     (case extract_card c of
        Inl e \<Rightarrow> None
      | Inr (name, price, location, timeposted, image_url, ad_url) \<Rightarrow>
          Some (listing_dict name price location timeposted (img_filename_of os name) ad_url))"

definition listing_keys :: "string set" where
  "listing_keys =
     {''Name'', ''Price'', ''Location'', ''Time Posted'', ''Image File'', ''Ad URL''}"

text \<open>A record that comes from a card of some page of the site.\<close>

definition from_site :: "env \<Rightarrow> listing \<Rightarrow> bool" where
  "from_site E r \<longleftrightarrow>
     (\<exists>c u. c \<in> set (cards (site E u)) \<and> card_listing (os_name E) c = Some r)"

text \<open>A finished run that returned, the records it returned, and the world it ended in.\<close>

definition has_returned :: "'a result option \<Rightarrow> bool" where
  "has_returned x = (case x of Some (Inr d, w') \<Rightarrow> True | _ \<Rightarrow> False)"

definition returned :: "('a list) result option \<Rightarrow> 'a list" where
  "returned x = (case x of Some (Inr d, w') \<Rightarrow> d | _ \<Rightarrow> [])"

definition final_world :: "'a result option \<Rightarrow> world \<Rightarrow> world" where
  "final_world x w = (case x of Some (r, w') \<Rightarrow> w' | None \<Rightarrow> w)"

text \<open>A site of two pages: on the first a complete card, a card without price and a
  card whose location has no date; on the second a card whose image is not served.\<close>

definition card_a :: card where
  "card_a = \<lparr>h6_text = Some ''Red bike'', ad_price_text = Some ''100'',
              location_date_text = Some ''Kyiv - Today 10:00'',
              img_src = Some ''http://img/a.jpg'', a_href = Some ''http://olx/a''\<rparr>"

definition card_b :: card where
  "card_b = \<lparr>h6_text = Some ''Blue bike'', ad_price_text = None,
              location_date_text = Some ''Kyiv - Today 11:00'',
              img_src = Some ''http://img/b.jpg'', a_href = Some ''http://olx/b''\<rparr>"

definition card_c :: card where
  "card_c = \<lparr>h6_text = Some ''Lamp'', ad_price_text = Some ''5'',
              location_date_text = Some ''Lviv'',
              img_src = Some ''http://img/c.jpg'', a_href = Some ''http://olx/c''\<rparr>"

definition card_d :: card where
  "card_d = \<lparr>h6_text = Some ''Old sofa'', ad_price_text = Some ''50'',
              location_date_text = Some ''Odesa - Yesterday'',
              img_src = Some ''http://img/d.jpg'', a_href = Some ''http://olx/d''\<rparr>"

definition page_one :: page where
  "page_one = \<lparr>cards = [card_a, card_b, card_c], pagination = [''1'', ''2''],
                scroll_height = (\<lambda>k. 600)\<rparr>"

definition page_two :: page where
  "page_two = \<lparr>cards = [card_d], pagination = [''1'', ''2''],
                scroll_height = (\<lambda>k. if k < 3 then 100 * k else 300)\<rparr>"

definition two_page_site :: "string \<Rightarrow> page" where
  "two_page_site url =
     (if url = ''http://olx/q'' then page_one
      else if url = ''http://olx/q&page=2'' then page_two
      else blank_page)"

text \<open>A site of one page, without pagination items, and one whose pagination shows 1.\<close>

definition plain_site :: "string \<Rightarrow> page" where
  "plain_site url = \<lparr>cards = [card_c], pagination = [], scroll_height = (\<lambda>k. 600)\<rparr>"

definition one_page_site :: "string \<Rightarrow> page" where
  "one_page_site url = \<lparr>cards = [card_c], pagination = [''1''], scroll_height = (\<lambda>k. 600)\<rparr>"

text \<open>A server that has every image but one.\<close>

definition image_server :: "string \<Rightarrow> nat \<Rightarrow> http_outcome" where
  "image_server url k =
     (if url = ''http://img/d.jpg'' then Response 404 [] else Response 200 tiny_gif)"

text \<open>Three runs of the scraper, from the empty world.\<close>

definition two_page_run :: "(listing list) result option" where
  "two_page_run =
     scrape_olx (example_env image_server disk_ok two_page_site) ''http://olx/q'' w0"

definition plain_run :: "(listing list) result option" where
  "plain_run = scrape_olx (example_env image_server disk_ok plain_site) ''http://olx/q'' w0"

definition one_page_run :: "(listing list) result option" where
  "one_page_run =
     scrape_olx (example_env image_server disk_ok one_page_site) ''http://olx/q'' w0"

text \<open>A card whose name begins with a slash, and the environment of the examples on a
  Windows system.\<close>

definition card_abs :: card where
  "card_abs = \<lparr>h6_text = Some ''/tmp/x y'', ad_price_text = Some ''1'',
                location_date_text = Some ''Kyiv - Today'',
                img_src = Some ''http://img/x.jpg'', a_href = Some ''http://olx/x''\<rparr>"

definition windows_env :: env where
  "windows_env = (example_env image_server disk_ok plain_site)\<lparr>os_name := Nt\<rparr>"
text \<open>What a cell of the saved workbook holds for a string put into the sheet: the
  first 32767 characters, and nothing when the string is empty. The row that a record
  should give has an empty Image cell.\<close>

definition saved_cell :: "string \<Rightarrow> string option" where
  "saved_cell v = (if v = [] then None else Some (take 32767 v))"

definition expected_row :: "listing \<Rightarrow> string option list" where
  "expected_row r =
     [saved_cell (the (r ''Name'')), saved_cell (the (r ''Price'')),
      saved_cell (the (r ''Location'')), saved_cell (the (r ''Time Posted'')),
      None, saved_cell (the (r ''Ad URL''))]"

text \<open>A text that the workbook library accepts as a cell value: no refused control
  character among its first 32767 characters.\<close>

definition accepted :: "string \<Rightarrow> bool" where
  "accepted v \<longleftrightarrow> \<not> list_ex illegal_character (take 32767 v)"

definition cell_keys :: "string list" where
  "cell_keys = [''Name'', ''Price'', ''Location'', ''Time Posted'', ''Ad URL'']"

text \<open>Whether the image of a record can be loaded, and whether a record can go into the
  sheet: it has the six keys, its five texts are accepted, and its image loads.\<close>

definition loadable :: "env \<Rightarrow> world \<Rightarrow> listing \<Rightarrow> bool" where
  "loadable E w r \<longleftrightarrow>
     (case r ''Image File'' of
        None \<Rightarrow> False
      | Some path \<Rightarrow>
          (case fs w path of Some (Raw b) \<Rightarrow> is_image E b | _ \<Rightarrow> False))"

definition savable :: "env \<Rightarrow> world \<Rightarrow> listing \<Rightarrow> bool" where
  "savable E w r \<longleftrightarrow>
     listing_keys \<subseteq> dom r \<and> list_all (\<lambda>k. accepted (the (r k))) cell_keys \<and> loadable E w r"

text \<open>The empty world with the images of \<open>card_a\<close> and \<open>card_c\<close> on disk, and the
  records of the two cards.\<close>

definition w_with_images :: world where
  "w_with_images =
     w0\<lparr>fs := [''images/Red_bike.jpg'' \<mapsto> Raw tiny_gif, ''images/Lamp.jpg'' \<mapsto> Raw tiny_gif]\<rparr>"

definition two_records :: "listing list" where
  "two_records =
     [listing_dict ''Red bike'' ''100'' ''Kyiv'' ''Today 10:00'' ''images/Red_bike.jpg''
        ''http://olx/a'',
      listing_dict ''Lamp'' ''5'' [] [] ''images/Lamp.jpg'' ''http://olx/c'']"

text \<open>A record whose name ends in the control character BEL, with its image on disk.\<close>

definition bell_record :: listing where
  "bell_record =
     listing_dict (''Bell'' @ [CHR 0x07]) ''7'' ''Kyiv'' ''Today'' ''images/Bell.jpg''
       ''http://olx/e''"

definition w_with_bell :: world where
  "w_with_bell = w0\<lparr>fs := [''images/Bell.jpg'' \<mapsto> Raw tiny_gif]\<rparr>"

text \<open>The rows of the workbook saved at a path.\<close>

definition saved_rows :: "world \<Rightarrow> string \<Rightarrow> string option list list" where
  "saved_rows w filename = (case fs w filename of Some (Xlsx ws) \<Rightarrow> rows ws | _ \<Rightarrow> [])"

text \<open>A user who searches for bikes in no particular city; a site that shows no card.\<close>

definition w_user :: world where
  "w_user = w0\<lparr>stdin := [''bike'', ''N'']\<rparr>"

definition no_results_site :: "string \<Rightarrow> page" where
  "no_results_site url = blank_page"
text \<open>A whole run of the program against a site that shows no card.\<close>

definition no_results_run :: "unit result option" where
  "no_results_run = main (example_env image_server disk_ok no_results_site) w_user"

text \<open>The exception of a card without price.\<close>

definition no_price :: exn where
  \<open>no_price = NoSuchElementException ''p[data-testid="ad-price"]''\<close>


text \<open>A site whose only card has a name that ends in the control character BEL, and a
  whole run against it; an environment whose disk is read-only and whose browser fails
  at the first command, and a whole run in it; the link that the user of the examples
  asks for.\<close>

definition card_bell :: card where
  "card_bell = \<lparr>h6_text = Some (''Bell'' @ [CHR 0x07]), ad_price_text = Some ''7'',
                 location_date_text = Some ''Kyiv - Today'',
                 img_src = Some ''http://img/e.jpg'', a_href = Some ''http://olx/e''\<rparr>"

definition bell_site :: "string \<Rightarrow> page" where
  "bell_site url = \<lparr>cards = [card_bell], pagination = [], scroll_height = (\<lambda>k. 600)\<rparr>"

definition bell_run :: "unit result option" where
  "bell_run = main (example_env image_server disk_ok bell_site) w_user"

definition crashed_env :: env where
  "crashed_env =
     (example_env image_server disk_read_only plain_site)\<lparr>driver_fault := (\<lambda>k. k = 0)\<rparr>"

definition crash_run :: "unit result option" where
  "crash_run = main crashed_env w_user"

definition bike_link :: string where
  "bike_link = ''https://www.olx.ua/uk/list//q-bike/''"

text \<open>More environments and worlds in which a step outside the card loop fails: a
  browser that fails at its \<open>k\<close>-th command, a driver that does not start, a site whose
  last pagination item is not a number, a world in which \<^verbatim>\<open>images\<close> is a file, and a
  site that announces two pages and has only one.\<close>

definition faulty_env :: "nat \<Rightarrow> env" where
  "faulty_env k = (example_env image_server disk_ok plain_site)\<lparr>driver_fault := (\<lambda>j. j = k)\<rparr>"

definition no_edge_env :: env where
  "no_edge_env = (example_env image_server disk_ok plain_site)\<lparr>edge_starts := False\<rparr>"

definition next_site :: "string \<Rightarrow> page" where
  "next_site url =
     \<lparr>cards = [card_c], pagination = [''1'', ''Next''], scroll_height = (\<lambda>k. 600)\<rparr>"

definition w_images_file :: world where
  "w_images_file = w0\<lparr>fs := [''images'' \<mapsto> Raw []]\<rparr>"

definition short_site :: "string \<Rightarrow> page" where
  "short_site url = (if url = ''http://olx/q'' then page_one else blank_page)"
section \<open>Properties of download_image\<close>

declare download_attempts.simps(2) [simp del]

lemmas effect_defs = download_attempts.simps requests_get_def write_file_def emit_def
  print_def time_sleep_def retry_pause_def Let_def

lemmas example_defs = example_env_def w0_def blank_page_def always_404_def
  third_time_lucky_def always_200_def disk_ok_def disk_read_only_def disk_full_def

lemma map_upd_lambda [simp]: "(\<lambda>a. if a = k then Some v else m a) = m(k \<mapsto> v)"
  by auto

lemma succeeds_iff: "succeeds r \<longleftrightarrow> (\<exists>content. r = Response 200 content)"
  by (cases r) auto

text \<open>A failed attempt, with a delay that \<^verbatim>\<open>time.sleep\<close> accepts and with one that it
  refuses.\<close>

lemma download_attempts_miss:
  assumes "\<not> succeeds (http E url (requests_sent w))" and "0 \<le> delay"
  shows "\<exists>m. download_attempts E url filename retries delay (a # rest) w
           = download_attempts E url filename retries delay rest
               (w\<lparr>requests_sent := Suc (requests_sent w),
                  trace := trace w @ [Get url, Print m, Print (Retry (a + 1) retries url),
                                      Sleep (of_int delay)]\<rparr>)"
proof (cases "http E url (requests_sent w)")
  case (Response status_code content)
  with assms have "status_code \<noteq> 200" by simp
  with Response assms(2) show ?thesis
    by (intro exI [of _ "FailedToDownload url status_code"]) (simp add: effect_defs)
next
  case (RequestFailed msg)
  with assms(2) show ?thesis
    by (intro exI [of _ "ErrorDownloading url msg"]) (simp add: effect_defs)
qed

lemma download_attempts_miss_refused:
  assumes "\<not> succeeds (http E url (requests_sent w))" and "delay < 0"
  shows "\<exists>m. download_attempts E url filename retries delay (a # rest) w
           = (Inl (ValueError ''sleep length must be non-negative''),
              w\<lparr>requests_sent := Suc (requests_sent w),
                trace := trace w @ [Get url, Print m, Print (Retry (a + 1) retries url)]\<rparr>)"
proof (cases "http E url (requests_sent w)")
  case (Response status_code content)
  with assms have "status_code \<noteq> 200" by simp
  with Response assms(2) show ?thesis
    by (intro exI [of _ "FailedToDownload url status_code"]) (simp add: effect_defs)
next
  case (RequestFailed msg)
  with assms(2) show ?thesis
    by (intro exI [of _ "ErrorDownloading url msg"]) (simp add: effect_defs)
qed

lemma download_attempts_hit:
  assumes "http E url (requests_sent w) = Response 200 content"
  shows "download_attempts E url filename retries delay (a # rest) w
         = (if CHR 0x00 \<in> set filename
            then (Inl (ValueError ''embedded null byte''),
                  w\<lparr>requests_sent := Suc (requests_sent w),
                    trace := trace w @ [Get url, OpenWb filename]\<rparr>)
            else case disk E filename (files_opened w) of
              IoOk \<Rightarrow>
                (Inr True, w\<lparr>requests_sent := Suc (requests_sent w),
                              files_opened := Suc (files_opened w),
                              trace := trace w @ [Get url, OpenWb filename],
                              fs := (fs w)(filename \<mapsto> Raw content)\<rparr>)
            | OpenFails \<Rightarrow>
                (Inl (OSError filename),
                 w\<lparr>requests_sent := Suc (requests_sent w),
                   files_opened := Suc (files_opened w),
                   trace := trace w @ [Get url, OpenWb filename]\<rparr>)
            | WriteFails n \<Rightarrow>
                (Inl (OSError filename),
                 w\<lparr>requests_sent := Suc (requests_sent w),
                   files_opened := Suc (files_opened w),
                   trace := trace w @ [Get url, OpenWb filename],
                   fs := (fs w)(filename \<mapsto> Raw (take n content))\<rparr>))"
  using assms by (simp add: effect_defs split: io_outcome.splits)

text \<open>After a failed attempt the loop goes on in a world that differs only in the
  request counter and the history, or ends there with the exception of the sleep.\<close>

lemma download_attempts_next:
  assumes "\<not> succeeds (http E url (requests_sent w))"
  shows "\<exists>w1 m. trace w1 = trace w @ [Get url, Print m, Print (Retry (a + 1) retries url)]
                    @ (if 0 \<le> delay then [Sleep (of_int delay)] else [])
           \<and> requests_sent w1 = Suc (requests_sent w)
           \<and> fs w1 = fs w \<and> files_opened w1 = files_opened w
           \<and> driver_calls w1 = driver_calls w
           \<and> current w1 = current w \<and> scrolls w1 = scrolls w \<and> stdin w1 = stdin w
           \<and> download_attempts E url filename retries delay (a # rest) w
               = (if 0 \<le> delay then download_attempts E url filename retries delay rest w1
                  else (Inl (ValueError ''sleep length must be non-negative''), w1))"
proof (cases "0 \<le> delay")
  case True
  from download_attempts_miss [OF assms True] obtain m where
    "download_attempts E url filename retries delay (a # rest) w
       = download_attempts E url filename retries delay rest
           (w\<lparr>requests_sent := Suc (requests_sent w),
              trace := trace w @ [Get url, Print m, Print (Retry (a + 1) retries url),
                                  Sleep (of_int delay)]\<rparr>)"
    by blast
  with True show ?thesis
    by (intro exI [of _ "w\<lparr>requests_sent := Suc (requests_sent w),
              trace := trace w @ [Get url, Print m, Print (Retry (a + 1) retries url),
                                  Sleep (of_int delay)]\<rparr>"] exI [of _ m]) simp
next
  case False
  then have "delay < 0" by simp
  from download_attempts_miss_refused [OF assms this] obtain m where
    "download_attempts E url filename retries delay (a # rest) w
       = (Inl (ValueError ''sleep length must be non-negative''),
          w\<lparr>requests_sent := Suc (requests_sent w),
            trace := trace w @ [Get url, Print m, Print (Retry (a + 1) retries url)]\<rparr>)"
    by blast
  with False show ?thesis
    by (intro exI [of _ "w\<lparr>requests_sent := Suc (requests_sent w),
            trace := trace w @ [Get url, Print m, Print (Retry (a + 1) retries url)]\<rparr>"]
          exI [of _ m]) simp
qed

lemma download_attempts_frame:
  "download_attempts E url filename retries delay attempts w = (res, w') \<Longrightarrow>
   current w' = current w \<and> scrolls w' = scrolls w \<and> stdin w' = stdin w
   \<and> driver_calls w' = driver_calls w"
proof (induction attempts arbitrary: w)
  case Nil
  then show ?case by simp
next
  case (Cons a attempts)
  show ?case
  proof (cases "succeeds (http E url (requests_sent w))")
    case True
    then obtain content where "http E url (requests_sent w) = Response 200 content"
      by (auto simp: succeeds_iff)
    from Cons.prems show ?thesis
      unfolding download_attempts_hit [OF \<open>http E url (requests_sent w) = Response 200 content\<close>]
      by (auto split: io_outcome.splits if_splits)
  next
    case False
    from download_attempts_next
      [OF False, where a = a and retries = retries and delay = delay and filename = filename
        and rest = attempts]
    obtain w1 where w1:
      "download_attempts E url filename retries delay (a # attempts) w
         = (if 0 \<le> delay then download_attempts E url filename retries delay attempts w1
            else (Inl (ValueError ''sleep length must be non-negative''), w1))"
      "current w1 = current w" "scrolls w1 = scrolls w" "stdin w1 = stdin w"
      "driver_calls w1 = driver_calls w"
      by blast
    show ?thesis
    proof (cases "0 \<le> delay")
      case True
      with w1(1) Cons.prems
      have "download_attempts E url filename retries delay attempts w1 = (res, w')" by simp
      with Cons.IH [of w1] w1 show ?thesis by simp
    next
      case False
      with w1 Cons.prems show ?thesis by simp
    qed
  qed
qed

lemma download_attempts_trace:
  "download_attempts E url filename retries delay attempts w = (res, w') \<Longrightarrow>
   \<exists>es. trace w' = trace w @ es \<and> (\<forall>e \<in> set es. download_event e)"
proof (induction attempts arbitrary: w)
  case Nil
  then show ?case by simp
next
  case (Cons a attempts)
  show ?case
  proof (cases "succeeds (http E url (requests_sent w))")
    case True
    then obtain content where "http E url (requests_sent w) = Response 200 content"
      by (auto simp: succeeds_iff)
    from Cons.prems show ?thesis
      unfolding download_attempts_hit [OF \<open>http E url (requests_sent w) = Response 200 content\<close>]
      by (auto split: io_outcome.splits if_splits)
  next
    case False
    from download_attempts_next
      [OF False, where a = a and retries = retries and delay = delay and filename = filename
        and rest = attempts]
    obtain w1 m where w1:
      "download_attempts E url filename retries delay (a # attempts) w
         = (if 0 \<le> delay then download_attempts E url filename retries delay attempts w1
            else (Inl (ValueError ''sleep length must be non-negative''), w1))"
      and tr: "trace w1 = trace w @ [Get url, Print m, Print (Retry (a + 1) retries url)]
                 @ (if 0 \<le> delay then [Sleep (of_int delay)] else [])"
      by blast
    show ?thesis
    proof (cases "0 \<le> delay")
      case True
      with w1 Cons.prems
      have "download_attempts E url filename retries delay attempts w1 = (res, w')" by simp
      from Cons.IH [OF this] obtain es where
        "trace w' = trace w1 @ es" "\<forall>e \<in> set es. download_event e"
        by blast
      with tr True show ?thesis
        by (intro exI [of _ "[Get url, Print m, Print (Retry (a + 1) retries url),
                              Sleep (of_int delay)] @ es"]) simp
    next
      case False
      with w1 Cons.prems have "w' = w1" by simp
      with tr False show ?thesis
        by (intro exI [of _ "[Get url, Print m, Print (Retry (a + 1) retries url)]"]) simp
    qed
  qed
qed

lemma download_attempts_False:
  "download_attempts E url filename retries delay attempts w = (Inr False, w') \<Longrightarrow>
     fs w' = fs w \<and> files_opened w' = files_opened w
     \<and> requests_sent w' = requests_sent w + length attempts"
proof (induction attempts arbitrary: w)
  case Nil
  then show ?case by simp
next
  case (Cons a attempts)
  show ?case
  proof (cases "succeeds (http E url (requests_sent w))")
    case True
    then obtain content where "http E url (requests_sent w) = Response 200 content"
      by (auto simp: succeeds_iff)
    from Cons.prems show ?thesis
      unfolding download_attempts_hit [OF \<open>http E url (requests_sent w) = Response 200 content\<close>]
      by (simp split: io_outcome.splits if_splits)
  next
    case False
    from download_attempts_next
      [OF False, where a = a and retries = retries and delay = delay and filename = filename
        and rest = attempts]
    obtain w1 where w1:
      "download_attempts E url filename retries delay (a # attempts) w
         = (if 0 \<le> delay then download_attempts E url filename retries delay attempts w1
            else (Inl (ValueError ''sleep length must be non-negative''), w1))"
      "fs w1 = fs w" "files_opened w1 = files_opened w"
      "requests_sent w1 = Suc (requests_sent w)"
      by blast
    show ?thesis
    proof (cases "0 \<le> delay")
      case True
      with w1(1) Cons.prems
      have "download_attempts E url filename retries delay attempts w1 = (Inr False, w')"
        by simp
      with Cons.IH [of w1] w1 show ?thesis by simp
    next
      case False
      with w1 Cons.prems show ?thesis by simp
    qed
  qed
qed

lemma download_attempts_stopped:
  "download_attempts E url filename retries delay attempts w = (res, w') \<Longrightarrow>
   res \<noteq> Inr False \<Longrightarrow>
     stopped_at_sleep E url delay w res w' \<or> stopped_at_file E url filename w res w'"
proof (induction attempts arbitrary: w)
  case Nil
  then show ?case by simp
next
  case (Cons a attempts)
  show ?case
  proof (cases "succeeds (http E url (requests_sent w))")
    case True
    then obtain content where hit: "http E url (requests_sent w) = Response 200 content"
      by (auto simp: succeeds_iff)
    from Cons.prems hit have "stopped_at_file E url filename w res w'"
      unfolding download_attempts_hit [OF hit] stopped_at_file_def
      by (auto simp: last_response_def split: io_outcome.splits if_splits)
    then show ?thesis ..
  next
    case False
    from download_attempts_next
      [OF False, where a = a and retries = retries and delay = delay and filename = filename
        and rest = attempts]
    obtain w1 where w1:
      "download_attempts E url filename retries delay (a # attempts) w
         = (if 0 \<le> delay then download_attempts E url filename retries delay attempts w1
            else (Inl (ValueError ''sleep length must be non-negative''), w1))"
      and same: "fs w1 = fs w" "files_opened w1 = files_opened w"
        "requests_sent w1 = Suc (requests_sent w)"
      by blast
    show ?thesis
    proof (cases "0 \<le> delay")
      case True
      with w1 Cons.prems
      have run: "download_attempts E url filename retries delay attempts w1 = (res, w')"
        by simp
      from Cons.IH [OF run Cons.prems(2)] same show ?thesis
        by (auto simp: stopped_at_sleep_def stopped_at_file_def split: io_outcome.splits)
    next
      case neg: False
      with w1 Cons.prems have "res = Inl (ValueError ''sleep length must be non-negative'')"
        "w' = w1" by simp_all
      with neg same False have "stopped_at_sleep E url delay w res w'"
        by (simp add: stopped_at_sleep_def last_response_def)
      then show ?thesis ..
    qed
  qed
qed

text \<open>Failed attempts are skipped one by one, as long as the sleep is accepted.\<close>

lemma download_attempts_skip:
  assumes "j \<le> length attempts"
    and "\<forall>k<j. \<not> succeeds (http E url (requests_sent w + k))"
    and "0 \<le> delay"
  shows "\<exists>w1. download_attempts E url filename retries delay attempts w
             = download_attempts E url filename retries delay (drop j attempts) w1
           \<and> fs w1 = fs w \<and> files_opened w1 = files_opened w
           \<and> requests_sent w1 = requests_sent w + j"
  using assms(1,2)
proof (induction attempts arbitrary: w j)
  case Nil
  then show ?case by simp
next
  case (Cons a attempts)
  show ?case
  proof (cases j)
    case 0
    then show ?thesis by (intro exI [of _ w]) simp
  next
    case (Suc j')
    with Cons.prems have miss: "\<not> succeeds (http E url (requests_sent w))" by force
    from download_attempts_next
      [OF miss, where a = a and retries = retries and delay = delay and filename = filename
        and rest = attempts] assms(3)
    obtain w1 where
      step: "download_attempts E url filename retries delay (a # attempts) w
               = download_attempts E url filename retries delay attempts w1"
      and same: "fs w1 = fs w" "files_opened w1 = files_opened w"
        "requests_sent w1 = Suc (requests_sent w)"
      by auto
    have "j' \<le> length attempts" using Cons.prems(1) Suc by simp
    moreover have "\<forall>k<j'. \<not> succeeds (http E url (requests_sent w1 + k))"
    proof (intro allI impI)
      fix k assume "k < j'"
      then have "Suc k < j" using Suc by simp
      with Cons.prems(2) have "\<not> succeeds (http E url (requests_sent w + Suc k))" by blast
      then show "\<not> succeeds (http E url (requests_sent w1 + k))" using same by simp
    qed
    ultimately obtain w2 where
      "download_attempts E url filename retries delay attempts w1
         = download_attempts E url filename retries delay (drop j' attempts) w2"
      "fs w2 = fs w1" "files_opened w2 = files_opened w1"
      "requests_sent w2 = requests_sent w1 + j'"
      using Cons.IH [of j' w1] by blast
    with step same Suc show ?thesis by (intro exI [of _ w2]) simp
  qed
qed

lemma download_attempts_first_success:
  assumes "j < length attempts"
    and "\<forall>k<j. \<not> succeeds (http E url (requests_sent w + k))"
    and "http E url (requests_sent w + j) = Response 200 content"
    and "0 \<le> delay"
  shows "\<exists>w1 a rest. download_attempts E url filename retries delay attempts w
             = download_attempts E url filename retries delay (a # rest) w1
           \<and> fs w1 = fs w \<and> files_opened w1 = files_opened w
           \<and> requests_sent w1 = requests_sent w + j
           \<and> http E url (requests_sent w1) = Response 200 content"
proof -
  from assms(1) have "j \<le> length attempts" by simp
  from download_attempts_skip [OF this assms(2,4)] obtain w1 where w1:
    "download_attempts E url filename retries delay attempts w
       = download_attempts E url filename retries delay (drop j attempts) w1"
    "fs w1 = fs w" "files_opened w1 = files_opened w"
    "requests_sent w1 = requests_sent w + j"
    by blast
  from assms(1) obtain a rest where "drop j attempts = a # rest"
    by (cases "drop j attempts") auto
  with w1 assms(3) show ?thesis
    by (intro exI [of _ w1] exI [of _ a] exI [of _ rest]) simp
qed

lemma download_attempts_never_succeeds:
  assumes "\<forall>k. \<not> succeeds (http E url k)" and "0 \<le> delay"
  shows "\<exists>es. download_attempts E url filename retries delay attempts w
           = (Inr False, w\<lparr>trace := trace w @ es,
                            requests_sent := requests_sent w + length attempts\<rparr>)
         \<and> filter is_get_or_sleep es
           = concat (replicate (length attempts) [Get url, Sleep (of_int delay)])"
proof (induction attempts arbitrary: w)
  case Nil
  show ?case by (intro exI [of _ "[]"]) simp
next
  case (Cons a attempts)
  from assms have "\<not> succeeds (http E url (requests_sent w))" by blast
  from download_attempts_miss
    [OF this assms(2), where filename = filename and retries = retries and a = a
      and rest = attempts]
  obtain m where
    step: "download_attempts E url filename retries delay (a # attempts) w
       = download_attempts E url filename retries delay attempts
           (w\<lparr>requests_sent := Suc (requests_sent w),
              trace := trace w @ [Get url, Print m, Print (Retry (a + 1) retries url),
                                  Sleep (of_int delay)]\<rparr>)"
    (is "_ = download_attempts E url filename retries delay attempts ?w1")
    by blast
  from Cons.IH [of ?w1] obtain es where
    run: "download_attempts E url filename retries delay attempts ?w1
           = (Inr False, ?w1\<lparr>trace := trace ?w1 @ es,
                              requests_sent := requests_sent ?w1 + length attempts\<rparr>)"
    and view: "filter is_get_or_sleep es
           = concat (replicate (length attempts) [Get url, Sleep (of_int delay)])"
    by blast
  show ?case
    using step run view
    by (intro exI [of _ "[Get url, Print m, Print (Retry (a + 1) retries url),
                          Sleep (of_int delay)] @ es"]) simp
qed
lemma gets_of_view: "filter is_get (filter is_get_or_sleep es) = filter is_get es"
proof -
  have "\<And>e. (is_get_or_sleep e \<and> is_get e) = is_get e"
    by (case_tac e) simp_all
  then show ?thesis by (simp add: filter_filter)
qed

lemma gets_of_rounds:
  "length (filter is_get (concat (replicate n [Get url, Sleep d]))) = n"
  by (induction n) simp_all

lemma download_image_never_succeeds:
  assumes "\<forall>k. \<not> succeeds (http E url k)" and "0 \<le> delay"
  shows "fst (download_image E url filename retries delay w) = Inr False
       \<and> filter is_get_or_sleep (new_events w (snd (download_image E url filename retries delay w)))
         = concat (replicate (nat retries) [Get url, Sleep (of_int delay)])"
proof -
  from download_attempts_never_succeeds
    [OF assms, where filename = filename and retries = retries
      and attempts = "[0..<nat retries]" and w = w]
  obtain es where
    "download_image E url filename retries delay w
       = (Inr False, w\<lparr>trace := trace w @ es,
                        requests_sent := requests_sent w + length [0..<nat retries]\<rparr>)"
    "filter is_get_or_sleep es = concat (replicate (nat retries) [Get url, Sleep (of_int delay)])"
    by (auto simp: download_image_def)
  then show ?thesis by (simp add: new_events_def)
qed

text \<open>
  C1. If every GET of the URL gives a response whose status is not 200 (and never a
  network error), \<^verbatim>\<open>download_image\<close>, called with a retry count and a delay that are not
  negative, returns \<open>False\<close>, and the requests and sleeps of the call are \<open>retries\<close>
  rounds of one GET followed by one sleep of the delay; with the default retry count
  that is 5 GETs.
\<close>

theorem download_image_gives_up_after_retries:
  assumes "\<forall>k. \<exists>status_code content.
             http E image_url k = Response status_code content \<and> status_code \<noteq> 200"
  shows "fst (download_image E image_url filename (int retries) (int delay) w) = Inr False
       \<and> filter is_get_or_sleep
           (new_events w
              (snd (download_image E image_url filename (int retries) (int delay) w)))
         = concat (replicate retries [Get image_url, Sleep (of_nat delay)])
       \<and> length (filter is_get
           (new_events w
              (snd (download_image E image_url filename (int retries) (int delay) w))))
         = retries
       \<and> length (filter is_get
           (new_events w (snd (download_image E image_url filename RETRIES DELAY w))))
         = 5"
proof -
  have never: "\<forall>k. \<not> succeeds (http E image_url k)"
  proof
    fix k
    from assms obtain status_code content where
      "http E image_url k = Response status_code content" "status_code \<noteq> 200"
      by blast
    then show "\<not> succeeds (http E image_url k)" by simp
  qed
  have count: "length (filter is_get
      (new_events w (snd (download_image E image_url filename (int r) (int d) w)))) = r"
    for r d
  proof -
    have "filter is_get
            (new_events w (snd (download_image E image_url filename (int r) (int d) w)))
          = filter is_get (concat (replicate r [Get image_url, Sleep (of_nat d)]))"
      using download_image_never_succeeds [OF never, of "int d" filename "int r" w]
      by (metis gets_of_view nat_int of_int_of_nat_eq of_nat_0_le_iff)
    then show ?thesis by (simp only: gets_of_rounds)
  qed
  have defaults: "RETRIES = int 5" "DELAY = int 2"
    by (simp_all add: RETRIES_def DELAY_def)
  show ?thesis
    using download_image_never_succeeds [OF never, of "int delay" filename "int retries" w]
      count [of retries delay] count [of 5 2]
    unfolding defaults by simp
qed

theorem download_image_gives_up_after_retries_witness:
  "(\<forall>k. \<exists>status_code content.
      http (example_env always_404 disk_ok (\<lambda>u. blank_page)) ''http://img/1.jpg'' k
        = Response status_code content \<and> status_code \<noteq> 200)
   \<and> fst (download_image (example_env always_404 disk_ok (\<lambda>u. blank_page))
            ''http://img/1.jpg'' ''images/a.jpg'' 3 2 w0) = Inr False
   \<and> filter is_get_or_sleep
        (new_events w0 (snd (download_image (example_env always_404 disk_ok (\<lambda>u. blank_page))
            ''http://img/1.jpg'' ''images/a.jpg'' 3 2 w0)))
      = [Get ''http://img/1.jpg'', Sleep 2, Get ''http://img/1.jpg'', Sleep 2,
         Get ''http://img/1.jpg'', Sleep 2]"
  using download_image_gives_up_after_retries
    [of "example_env always_404 disk_ok (\<lambda>u. blank_page)" "''http://img/1.jpg''"
        "''images/a.jpg''" 3 2 w0]
  by (simp add: example_defs numeral_3_eq_3)

text \<open>
  C2, as amended. If the attempts before the \<open>N\<close>-th fail (a status other than 200 or a
  network error), the \<open>N\<close>-th gets a response with status 200, \<open>N\<close> is at most the retry
  count, and the target file can be opened and written, then \<^verbatim>\<open>download_image\<close> returns
  \<open>True\<close> after \<open>N\<close> requests and the file at the target path holds exactly the body of
  that response.
\<close>

theorem download_image_succeeds_on_attempt:
  assumes "1 \<le> N" and "N \<le> retries"
    and "\<forall>k. 1 \<le> k \<and> k < N \<longrightarrow> \<not> succeeds (attempt_outcome E image_url w k)"
    and "attempt_outcome E image_url w N = Response 200 content"
    and "writable E w filename"
  shows "fst (download_image E image_url filename (int retries) (int delay) w) = Inr True
       \<and> fs (snd (download_image E image_url filename (int retries) (int delay) w)) filename
         = Some (Raw content)
       \<and> requests_sent (snd (download_image E image_url filename (int retries) (int delay) w))
         = requests_sent w + N"
proof -
  obtain j where N: "N = Suc j" using assms(1) by (cases N) auto
  have "j < length [0..<nat (int retries)]" using assms(2) N by simp
  moreover have "\<forall>k<j. \<not> succeeds (http E image_url (requests_sent w + k))"
  proof (intro allI impI)
    fix k assume "k < j"
    then have "1 \<le> Suc k \<and> Suc k < N" using N by simp
    with assms(3) have "\<not> succeeds (attempt_outcome E image_url w (Suc k))" by blast
    then show "\<not> succeeds (http E image_url (requests_sent w + k))"
      by (simp add: attempt_outcome_def)
  qed
  moreover have "http E image_url (requests_sent w + j) = Response 200 content"
    using assms(4) N by (simp add: attempt_outcome_def)
  moreover have "0 \<le> int delay" by simp
  ultimately obtain w1 a rest where w1:
    "download_attempts E image_url filename (int retries) (int delay)
         [0..<nat (int retries)] w
       = download_attempts E image_url filename (int retries) (int delay) (a # rest) w1"
    "fs w1 = fs w" "files_opened w1 = files_opened w"
    "requests_sent w1 = requests_sent w + j"
    "http E image_url (requests_sent w1) = Response 200 content"
    using download_attempts_first_success
      [where attempts = "[0..<nat (int retries)]" and j = j and E = E and url = image_url
        and w = w and content = content and delay = "int delay" and filename = filename
        and retries = "int retries"]
    by blast
  from assms(5) w1(2,3,4) show ?thesis
    unfolding download_image_def w1(1) download_attempts_hit [OF w1(5)]
    by (simp add: writable_def N)
qed

theorem download_image_succeeds_on_attempt_witness:
  "(1::nat) \<le> 3 \<and> (3::nat) \<le> 5
   \<and> \<not> succeeds (attempt_outcome (example_env third_time_lucky disk_ok (\<lambda>u. blank_page))
                      ''http://img/1.jpg'' w0 1)
   \<and> \<not> succeeds (attempt_outcome (example_env third_time_lucky disk_ok (\<lambda>u. blank_page))
                      ''http://img/1.jpg'' w0 2)
   \<and> attempt_outcome (example_env third_time_lucky disk_ok (\<lambda>u. blank_page))
         ''http://img/1.jpg'' w0 3 = Response 200 [1, 2, 3]
   \<and> writable (example_env third_time_lucky disk_ok (\<lambda>u. blank_page)) w0 ''images/a.jpg''
   \<and> fst (download_image (example_env third_time_lucky disk_ok (\<lambda>u. blank_page))
            ''http://img/1.jpg'' ''images/a.jpg'' 5 2 w0) = Inr True
   \<and> fs (snd (download_image (example_env third_time_lucky disk_ok (\<lambda>u. blank_page))
            ''http://img/1.jpg'' ''images/a.jpg'' 5 2 w0)) ''images/a.jpg''
      = Some (Raw [1, 2, 3])"
proof -
  let ?E = "example_env third_time_lucky disk_ok (\<lambda>u. blank_page)"
  have earlier: "\<forall>k. 1 \<le> k \<and> k < 3 \<longrightarrow>
      \<not> succeeds (attempt_outcome ?E ''http://img/1.jpg'' w0 k)"
  proof (intro allI impI)
    fix k :: nat assume "1 \<le> k \<and> k < 3"
    then have "k = 1 \<or> k = 2" by arith
    then show "\<not> succeeds (attempt_outcome ?E ''http://img/1.jpg'' w0 k)"
      by (auto simp: example_defs attempt_outcome_def)
  qed
  have third: "attempt_outcome ?E ''http://img/1.jpg'' w0 3 = Response 200 [1, 2, 3]"
    by (simp add: example_defs attempt_outcome_def)
  have target: "writable ?E w0 ''images/a.jpg''"
    by (simp add: example_defs writable_def)
  from download_image_succeeds_on_attempt [of 3 5 ?E "''http://img/1.jpg''" w0 "[1, 2, 3]"
      "''images/a.jpg''" 2, OF _ _ earlier third target] earlier third target
  show ?thesis by (simp add: numeral_2_eq_2)
qed

text \<open>The claim as stated fails where the target file cannot be opened: the first
  attempt gets status 200, and the call raises instead of returning \<open>True\<close>.\<close>

theorem download_image_unwritable_target_counterexample:
  "attempt_outcome (example_env always_200 disk_read_only (\<lambda>u. blank_page))
      ''http://img/1.jpg'' w0 1 = Response 200 [7, 7]
   \<and> (1::nat) \<le> 5
   \<and> fst (download_image (example_env always_200 disk_read_only (\<lambda>u. blank_page))
            ''http://img/1.jpg'' ''images/a.jpg'' 5 2 w0) = Inl (OSError ''images/a.jpg'')
   \<and> fs (snd (download_image (example_env always_200 disk_read_only (\<lambda>u. blank_page))
            ''http://img/1.jpg'' ''images/a.jpg'' 5 2 w0)) ''images/a.jpg'' = None"
  by (simp add: download_image_def example_defs attempt_outcome_def effect_defs upt_rec)








text \<open>
  C8, as amended. When \<^verbatim>\<open>download_image\<close> returns \<open>True\<close> it has opened the target once
  and the file holds the whole body of the last response; when it returns \<open>False\<close> it
  has opened no file and the file system is unchanged; no other path is ever touched;
  and the file system changes only in a call that returns \<open>True\<close> or raises the
  \<^verbatim>\<open>OSError\<close> of the write.
\<close>

theorem download_image_file_effect:
  assumes "download_image E image_url filename retries delay w = (res, w')"
  shows "(res = Inr True \<longrightarrow>
            fs w' = (fs w)(filename \<mapsto> Raw (body (last_response E image_url w')))
            \<and> files_opened w' = files_opened w + 1)
       \<and> (res = Inr False \<longrightarrow> fs w' = fs w \<and> files_opened w' = files_opened w)
       \<and> (fs w' \<noteq> fs w \<longrightarrow> res = Inr True \<or> res = Inl (OSError filename))
       \<and> (\<forall>path. path \<noteq> filename \<longrightarrow> fs w' path = fs w path)"
proof (cases "res = Inr False")
  case True
  with assms
    download_attempts_False [of E image_url filename retries delay "[0..<nat retries]" w w']
  show ?thesis by (simp add: download_image_def)
next
  case False
  from assms have run:
    "download_attempts E image_url filename retries delay [0..<nat retries] w = (res, w')"
    by (simp add: download_image_def)
  from download_attempts_stopped [OF run False] show ?thesis
  proof
    assume "stopped_at_sleep E image_url delay w res w'"
    then show ?thesis by (simp add: stopped_at_sleep_def)
  next
    assume "stopped_at_file E image_url filename w res w'"
    then show ?thesis
      by (cases "disk E filename (files_opened w)")
        (auto simp: stopped_at_file_def split: if_splits)
  qed
qed

theorem download_image_file_effect_witness:
  "fst (download_image (example_env third_time_lucky disk_ok (\<lambda>u. blank_page))
          ''http://img/1.jpg'' ''images/a.jpg'' 5 2 w0) = Inr True
   \<and> fs (snd (download_image (example_env third_time_lucky disk_ok (\<lambda>u. blank_page))
          ''http://img/1.jpg'' ''images/a.jpg'' 5 2 w0))
      = (fs w0)(''images/a.jpg'' \<mapsto> Raw [1, 2, 3])
   \<and> fst (download_image (example_env always_404 disk_ok (\<lambda>u. blank_page))
          ''http://img/1.jpg'' ''images/a.jpg'' 5 2 w0) = Inr False
   \<and> fs (snd (download_image (example_env always_404 disk_ok (\<lambda>u. blank_page))
          ''http://img/1.jpg'' ''images/a.jpg'' 5 2 w0)) = fs w0"
  using download_image_file_effect
      [of "example_env third_time_lucky disk_ok (\<lambda>u. blank_page)" "''http://img/1.jpg''"
          "''images/a.jpg''" 5 2 w0
          "fst (download_image (example_env third_time_lucky disk_ok (\<lambda>u. blank_page))
                  ''http://img/1.jpg'' ''images/a.jpg'' 5 2 w0)"
          "snd (download_image (example_env third_time_lucky disk_ok (\<lambda>u. blank_page))
                  ''http://img/1.jpg'' ''images/a.jpg'' 5 2 w0)"]
    download_image_file_effect
      [of "example_env always_404 disk_ok (\<lambda>u. blank_page)" "''http://img/1.jpg''"
          "''images/a.jpg''" 5 2 w0
          "fst (download_image (example_env always_404 disk_ok (\<lambda>u. blank_page))
                  ''http://img/1.jpg'' ''images/a.jpg'' 5 2 w0)"
          "snd (download_image (example_env always_404 disk_ok (\<lambda>u. blank_page))
                  ''http://img/1.jpg'' ''images/a.jpg'' 5 2 w0)"]
  by (simp add: download_image_def example_defs effect_defs upt_rec last_response_def)

text \<open>The claim as stated fails where the write fails after the file was opened: the
  call does not return \<open>True\<close>, and it leaves an empty file where there was none.\<close>

theorem download_image_partial_file_counterexample:
  "fst (download_image (example_env always_200 disk_full (\<lambda>u. blank_page))
          ''http://img/1.jpg'' ''images/a.jpg'' 5 2 w0) \<noteq> Inr True
   \<and> fs w0 ''images/a.jpg'' = None
   \<and> fs (snd (download_image (example_env always_200 disk_full (\<lambda>u. blank_page))
          ''http://img/1.jpg'' ''images/a.jpg'' 5 2 w0)) ''images/a.jpg'' = Some (Raw [])"
  by (simp add: download_image_def example_defs effect_defs upt_rec)

section \<open>Properties of the scrolling\<close>

lemma quiet_step_refl: "quiet_step w w"
  by (simp add: quiet_step_def)

lemma quiet_step_trans: "quiet_step w w1 \<Longrightarrow> quiet_step w1 w2 \<Longrightarrow> quiet_step w w2"
  unfolding quiet_step_def
  by (elim conjE exE, intro conjI, rule_tac x = "es @ esa" in exI) auto

lemma quiet_step_emit: "quiet e \<Longrightarrow> quiet_step w (emit e w)"
  by (simp add: quiet_step_def emit_def)

lemma quiet_step_time_sleep: "time_sleep d w = (res, w') \<Longrightarrow> quiet_step w w'"
  by (auto simp: time_sleep_def quiet_step_def emit_def split: if_splits)

lemma quiet_step_driver_command:
  "driver_command E call w = (res, w') \<Longrightarrow> quiet call \<Longrightarrow> quiet_step w w'"
  by (auto simp: driver_command_def quiet_step_def emit_def Let_def split: if_splits)

lemma quiet_step_execute_script: "execute_script E s w = (res, w') \<Longrightarrow> quiet_step w w'"
proof -
  assume run: "execute_script E s w = (res, w')"
  obtain r1 w1 where step: "driver_command E (ExecuteScript s) w = (r1, w1)"
    by (cases "driver_command E (ExecuteScript s) w")
  from quiet_step_driver_command [OF step] have "quiet_step w w1" by simp
  moreover from run step have "quiet_step w1 w'"
    by (cases r1) (auto simp: execute_script_def quiet_step_def)
  ultimately show ?thesis by (rule quiet_step_trans)
qed

lemma quiet_step_read_scroll_height:
  "read_scroll_height E w = (res, w') \<Longrightarrow> quiet_step w w'"
  by (auto simp: read_scroll_height_def split: prod.splits sum.splits
        dest: quiet_step_execute_script)

lemma quiet_step_find_cards: "find_cards E w = (res, w') \<Longrightarrow> quiet_step w w'"
  by (auto simp: find_cards_def split: prod.splits sum.splits
        dest: quiet_step_driver_command)

lemma quiet_step_find_pagination: "find_pagination E w = (res, w') \<Longrightarrow> quiet_step w w'"
  by (auto simp: find_pagination_def split: prod.splits sum.splits
        dest: quiet_step_driver_command)

lemma quiet_step_wait_for_cards: "wait_for_cards E w = (res, w') \<Longrightarrow> quiet_step w w'"
  by (auto simp: wait_for_cards_def split: prod.splits sum.splits if_splits
        dest: quiet_step_driver_command)

text \<open>What the driver finds is what the loaded page shows.\<close>

lemma find_cards_found: "find_cards E w = (Inr cs, w') \<Longrightarrow> cs = cards (current w)"
  by (auto simp: find_cards_def driver_command_def emit_def Let_def
        split: prod.splits sum.splits if_splits)

lemma find_pagination_found:
  "find_pagination E w = (Inr pages, w') \<Longrightarrow> pages = pagination (current w)"
  by (auto simp: find_pagination_def driver_command_def emit_def Let_def
        split: prod.splits sum.splits if_splits)

lemma quiet_step_scroll_to_card:
  assumes "scroll_to_card E scroll_pause i w = (res, w')"
  shows "quiet_step w w'"
proof -
  obtain r1 w1 where s1: "execute_script E (ScrollIntoView i) w = (r1, w1)"
    by (cases "execute_script E (ScrollIntoView i) w")
  note q1 = quiet_step_execute_script [OF s1]
  show ?thesis
  proof (cases r1)
    case (Inl e)
    with assms s1 q1 show ?thesis by (simp add: scroll_to_card_def)
  next
    case (Inr x)
    obtain r2 w2 where
      s2: "(if i mod 5 = 0 then time_sleep (2 / 10) w1 else (Inr (), w1)) = (r2, w2)"
      by (cases "if i mod 5 = 0 then time_sleep (2 / 10) w1 else (Inr (), w1)")
    then have q2: "quiet_step w1 w2"
      by (auto split: if_splits dest: quiet_step_time_sleep simp: quiet_step_refl)
    show ?thesis
    proof (cases r2)
      case (Inl e)
      with assms s1 \<open>r1 = Inr x\<close> s2 have "w' = w2" by (simp add: scroll_to_card_def)
      with q1 q2 show ?thesis by (blast intro: quiet_step_trans)
    next
      case (Inr y)
      with assms s1 \<open>r1 = Inr x\<close> s2 have "time_sleep scroll_pause w2 = (res, w')"
        by (simp add: scroll_to_card_def)
      from quiet_step_time_sleep [OF this] q1 q2 show ?thesis
        by (blast intro: quiet_step_trans)
    qed
  qed
qed

lemma quiet_step_scroll_cards:
  "scroll_cards E scroll_pause i cs w = (res, w') \<Longrightarrow> quiet_step w w'"
proof (induction cs arbitrary: i w)
  case Nil
  then show ?case by (simp add: quiet_step_refl)
next
  case (Cons c cs)
  obtain r1 w1 where s1: "scroll_to_card E scroll_pause i w = (r1, w1)"
    by (cases "scroll_to_card E scroll_pause i w")
  note q1 = quiet_step_scroll_to_card [OF s1]
  show ?case
  proof (cases r1)
    case (Inl e)
    with Cons.prems s1 q1 show ?thesis by simp
  next
    case (Inr x)
    with Cons.prems s1 have "scroll_cards E scroll_pause (i + 1) cs w1 = (res, w')" by simp
    from Cons.IH [OF this] q1 show ?thesis by (blast intro: quiet_step_trans)
  qed
qed

lemma quiet_step_scroll_once:
  assumes "scroll_once E scroll_pause w = (res, w')"
  shows "quiet_step w w'"
proof -
  obtain r1 w1 where s1: "execute_script E ScrollToBottom w = (r1, w1)"
    by (cases "execute_script E ScrollToBottom w")
  note q1 = quiet_step_execute_script [OF s1]
  show ?thesis
  proof (cases r1)
    case (Inl e)
    with assms s1 q1 show ?thesis by (simp add: scroll_once_def)
  next
    case (Inr x)
    obtain r2 w2 where s2: "time_sleep scroll_pause w1 = (r2, w2)"
      by (cases "time_sleep scroll_pause w1")
    note q2 = quiet_step_time_sleep [OF s2]
    show ?thesis
    proof (cases r2)
      case (Inl e)
      with assms s1 \<open>r1 = Inr x\<close> s2 have "w' = w2" by (simp add: scroll_once_def)
      with q1 q2 show ?thesis by (blast intro: quiet_step_trans)
    next
      case (Inr y)
      with assms s1 \<open>r1 = Inr x\<close> s2 have "read_scroll_height E w2 = (res, w')"
        by (simp add: scroll_once_def)
      from quiet_step_read_scroll_height [OF this] q1 q2 show ?thesis
        by (blast intro: quiet_step_trans)
    qed
  qed
qed

lemma quiet_step_scroll_to_bottom_snd:
  assumes "scroll_to_bottom E scroll_pause last_height w = Some y"
  shows "quiet_step w (snd y)"
proof (rule scroll_to_bottom.raw_induct
    [where P = "\<lambda>E scroll_pause last_height w y. quiet_step w (snd y)", OF _ assms])
  fix loop E scroll_pause last_height w y
  assume IH: "\<And>E scroll_pause last_height w y.
      loop E scroll_pause last_height w = Some y \<Longrightarrow> quiet_step w (snd y)"
    and unfolded:
      "(case scroll_once E scroll_pause w of
          (Inl e, w1) \<Rightarrow> Some (Inl e, w1)
        | (Inr new_height, w1) \<Rightarrow>
            if new_height = last_height then Some (Inr (), w1)
            else loop E scroll_pause new_height w1) = Some y"
  obtain r1 w1 where s1: "scroll_once E scroll_pause w = (r1, w1)"
    by (cases "scroll_once E scroll_pause w")
  note q1 = quiet_step_scroll_once [OF s1]
  show "quiet_step w (snd y)"
  proof (cases r1)
    case (Inl e)
    with unfolded s1 have "snd y = w1" by auto
    with q1 show ?thesis by simp
  next
    case (Inr new_height)
    show ?thesis
    proof (cases "new_height = last_height")
      case True
      with unfolded s1 Inr have "snd y = w1" by auto
      with q1 show ?thesis by simp
    next
      case False
      with unfolded s1 Inr have "loop E scroll_pause new_height w1 = Some y" by simp
      then have "quiet_step w1 (snd y)" by (rule IH)
      with q1 show ?thesis by (rule quiet_step_trans)
    qed
  qed
qed

lemma quiet_step_scroll_to_bottom:
  "scroll_to_bottom E scroll_pause last_height w = Some (res, w') \<Longrightarrow> quiet_step w w'"
  using quiet_step_scroll_to_bottom_snd [of E scroll_pause last_height w "(res, w')"] by simp

lemma quiet_step_slow_scroll_page:
  assumes "slow_scroll_page E scroll_pause w = Some (res, w')"
  shows "quiet_step w w'"
proof -
  obtain r1 w1 where s1: "read_scroll_height E w = (r1, w1)"
    by (cases "read_scroll_height E w")
  note q1 = quiet_step_read_scroll_height [OF s1]
  show ?thesis
  proof (cases r1)
    case (Inl e)
    with assms s1 q1 show ?thesis by (simp add: slow_scroll_page_def)
  next
    case h: (Inr last_height)
    obtain r2 w2 where s2: "find_cards E w1 = (r2, w2)"
      by (cases "find_cards E w1")
    from quiet_step_find_cards [OF s2] q1 have q2: "quiet_step w w2"
      by (blast intro: quiet_step_trans)
    show ?thesis
    proof (cases r2)
      case (Inl e)
      with assms s1 h s2 q2 show ?thesis by (simp add: slow_scroll_page_def)
    next
      case cs: (Inr cs)
      obtain r3 w3 where s3: "scroll_cards E scroll_pause 0 cs w2 = (r3, w3)"
        by (cases "scroll_cards E scroll_pause 0 cs w2")
      from quiet_step_scroll_cards [OF s3] q2 have q3: "quiet_step w w3"
        by (blast intro: quiet_step_trans)
      show ?thesis
      proof (cases r3)
        case (Inl e)
        with assms s1 h s2 cs s3 q3 show ?thesis by (simp add: slow_scroll_page_def)
      next
        case (Inr x)
        with assms s1 h s2 cs s3
        have "scroll_to_bottom E scroll_pause last_height w3 = Some (res, w')"
          by (simp add: slow_scroll_page_def)
        from quiet_step_scroll_to_bottom [OF this] q3 show ?thesis
          by (blast intro: quiet_step_trans)
      qed
    qed
  qed
qed

section \<open>Properties of the page loop\<close>

lemma quiet_filters:
  assumes "\<forall>e \<in> set es. quiet e"
  shows "filter is_navigate es = []" and "filter is_card_seen es = []"
    and "filter is_download_ok es = []"
proof -
  have "\<not> is_navigate e \<and> \<not> is_card_seen e \<and> \<not> is_download_ok e" if "quiet e" for e
    using that by (cases e) simp_all
  with assms show "filter is_navigate es = []" and "filter is_card_seen es = []"
    and "filter is_download_ok es = []"
    by (simp_all add: filter_empty_conv)
qed

lemma download_event_quiet: "download_event e \<Longrightarrow> quiet e"
  by (cases e) simp_all

lemma download_image_quiet:
  assumes "download_image E url filename retries delay w = (res, w')"
  shows "\<exists>es. trace w' = trace w @ es \<and> (\<forall>e \<in> set es. quiet e)"
    and "current w' = current w"
proof -
  from assms have run:
    "download_attempts E url filename retries delay [0..<nat retries] w = (res, w')"
    by (simp add: download_image_def)
  from download_attempts_trace [OF run] show
    "\<exists>es. trace w' = trace w @ es \<and> (\<forall>e \<in> set es. quiet e)"
    by (blast intro: download_event_quiet)
  from download_attempts_frame [OF run] show "current w' = current w" by simp
qed

text \<open>What loading a page does: one navigation, then quiet events; a load that
  returns has left the page behind the URL in the browser.\<close>

lemma driver_get_run:
  assumes "driver_get E url w = (res, w')"
  shows "trace w' = trace w @ [Navigate url]"
    and "res = Inr x \<Longrightarrow> current w' = site E url"
  using assms
  by (auto simp: driver_get_def driver_command_def emit_def Let_def split: if_splits)

lemma get_wait_scroll_run:
  assumes "get_wait_scroll E url w = Some (res, w')"
  shows "\<exists>es. trace w' = trace w @ Navigate url # es \<and> (\<forall>e \<in> set es. quiet e)"
    and "res = Inr x \<Longrightarrow> current w' = site E url"
proof -
  obtain r1 w1 where s1: "driver_get E url w = (r1, w1)"
    by (cases "driver_get E url w")
  note t1 = driver_get_run(1) [OF s1]
  have "(\<exists>es. trace w' = trace w @ Navigate url # es \<and> (\<forall>e \<in> set es. quiet e))
      \<and> (res = Inr x \<longrightarrow> current w' = site E url)"
  proof (cases r1)
    case (Inl e)
    with assms s1 have "res = Inl e" "w' = w1" by (simp_all add: get_wait_scroll_def)
    with t1 show ?thesis by simp
  next
    case got: (Inr u)
    from driver_get_run(2) [OF s1 got] have c1: "current w1 = site E url" .
    obtain r2 w2 where s2: "wait_for_cards E w1 = (r2, w2)"
      by (cases "wait_for_cards E w1")
    note q2 = quiet_step_wait_for_cards [OF s2]
    show ?thesis
    proof (cases r2)
      case (Inl e)
      with assms s1 got s2 have "res = Inl e" "w' = w2" by (simp_all add: get_wait_scroll_def)
      with t1 q2 show ?thesis by (auto simp: quiet_step_def)
    next
      case (Inr v)
      with assms s1 got s2 have "slow_scroll_page E SCROLL_PAUSE_TIME w2 = Some (res, w')"
        by (simp add: get_wait_scroll_def)
      from quiet_step_trans [OF q2 quiet_step_slow_scroll_page [OF this]] t1 c1
      show ?thesis by (auto simp: quiet_step_def)
    qed
  qed
  then show "\<exists>es. trace w' = trace w @ Navigate url # es \<and> (\<forall>e \<in> set es. quiet e)"
    and "res = Inr x \<Longrightarrow> current w' = site E url"
    by simp_all
qed

text \<open>What one iteration of the card loop does.\<close>

lemma process_card_run:
  assumes "process_card E c data w = (data', w')"
  shows "\<exists>es. trace w' = trace w @ es \<and> filter is_navigate es = []
           \<and> length (filter is_card_seen es) = 1
           \<and> (data' = data \<and> filter is_download_ok es = []
              \<or> (\<exists>r. data' = data @ [r] \<and> length (filter is_download_ok es) = 1
                      \<and> card_listing (os_name E) c = Some r))"
    and "current w' = current w"
proof -
  let ?w = "emit CardSeen w"
  have start: "trace ?w = trace w @ [CardSeen]" "current ?w = current w"
    by (simp_all add: emit_def)
  show "\<exists>es. trace w' = trace w @ es \<and> filter is_navigate es = []
           \<and> length (filter is_card_seen es) = 1
           \<and> (data' = data \<and> filter is_download_ok es = []
              \<or> (\<exists>r. data' = data @ [r] \<and> length (filter is_download_ok es) = 1
                      \<and> card_listing (os_name E) c = Some r))"
  proof (cases "extract_card c")
    case (Inl e)
    with assms have "data' = data" "w' = print (ErrorProcessingCard e) ?w"
      by (simp_all add: process_card_def Let_def)
    then show ?thesis
      by (intro exI [of _ "[CardSeen, Print (ErrorProcessingCard e)]"])
         (simp add: print_def emit_def)
  next
    case (Inr fields)
    obtain name price location timeposted image_url ad_url where
      fields: "fields = (name, price, location, timeposted, image_url, ad_url)"
      by (cases fields) auto
    obtain res w1 where
      dl: "download_image E image_url (img_filename_of (os_name E) name) RETRIES DELAY ?w = (res, w1)"
      by (cases "download_image E image_url (img_filename_of (os_name E) name) RETRIES DELAY ?w")
    from download_image_quiet(1) [OF dl] start obtain es1 where
      es1: "trace w1 = trace w @ CardSeen # es1" "\<forall>e \<in> set es1. quiet e"
      by auto
    note f = quiet_filters [OF es1(2)]
    show ?thesis
    proof (cases res)
      case (Inl e)
      with assms Inr fields dl have "data' = data" "w' = print (ErrorProcessingCard e) w1"
        by (simp_all add: process_card_def Let_def)
      with es1 f show ?thesis
        by (intro exI [of _ "CardSeen # es1 @ [Print (ErrorProcessingCard e)]"])
           (simp add: print_def emit_def)
    next
      case (Inr ok)
      show ?thesis
      proof (cases ok)
        case True
        with assms \<open>extract_card c = Inr fields\<close> fields dl Inr have
          "data' = data @ [listing_dict name price location timeposted (img_filename_of (os_name E) name) ad_url]"
          "w' = emit (Downloaded image_url (img_filename_of (os_name E) name) True) w1"
          by (simp_all add: process_card_def Let_def)
        moreover have "card_listing (os_name E) c
            = Some (listing_dict name price location timeposted (img_filename_of (os_name E) name) ad_url)"
          using \<open>extract_card c = Inr fields\<close> fields by (simp add: card_listing_def)
        ultimately show ?thesis
          using es1 f
          by (intro exI [of _ "CardSeen # es1 @ [Downloaded image_url (img_filename_of (os_name E) name) True]"])
             (simp add: emit_def)
      next
        case False
        with assms \<open>extract_card c = Inr fields\<close> fields dl Inr have
          "data' = data" "w' = emit (Downloaded image_url (img_filename_of (os_name E) name) False) w1"
          by (simp_all add: process_card_def Let_def)
        with es1 f show ?thesis
          by (intro exI [of _ "CardSeen # es1 @ [Downloaded image_url (img_filename_of (os_name E) name) False]"])
             (simp add: emit_def)
      qed
    qed
  qed
  show "current w' = current w"
  proof (cases "extract_card c")
    case (Inl e)
    with assms show ?thesis
      by (auto simp: process_card_def Let_def print_def emit_def)
  next
    case (Inr fields)
    obtain name price location timeposted image_url ad_url where
      fields: "fields = (name, price, location, timeposted, image_url, ad_url)"
      by (cases fields) auto
    obtain res w1 where
      dl: "download_image E image_url (img_filename_of (os_name E) name) RETRIES DELAY ?w = (res, w1)"
      by (cases "download_image E image_url (img_filename_of (os_name E) name) RETRIES DELAY ?w")
    from download_image_quiet(2) [OF dl] start have "current w1 = current w" by simp
    with assms Inr fields dl show ?thesis
      by (cases res) (auto simp: process_card_def Let_def print_def emit_def split: if_splits)
  qed
qed

lemma scrape_cards_run:
  assumes "scrape_cards E cs data w = (data', w')"
  shows "\<exists>es new. trace w' = trace w @ es \<and> filter is_navigate es = []
           \<and> length (filter is_card_seen es) = length cs
           \<and> data' = data @ new \<and> length new = length (filter is_download_ok es)
           \<and> length new \<le> length cs
           \<and> (\<forall>r \<in> set new. \<exists>c \<in> set cs. card_listing (os_name E) c = Some r)"
  using assms
proof (induction cs arbitrary: data w)
  case Nil
  then show ?case by (intro exI [of _ "[]"]) simp
next
  case (Cons c cs)
  obtain data1 w1 where step: "process_card E c data w = (data1, w1)"
    by (cases "process_card E c data w")
  with Cons.prems have rest: "scrape_cards E cs data1 w1 = (data', w')" by simp
  from process_card_run(1) [OF step] obtain es1 where
    es1: "trace w1 = trace w @ es1" "filter is_navigate es1 = []"
      "length (filter is_card_seen es1) = 1"
    and here: "data1 = data \<and> filter is_download_ok es1 = []
      \<or> (\<exists>r. data1 = data @ [r] \<and> length (filter is_download_ok es1) = 1
              \<and> card_listing (os_name E) c = Some r)"
    by blast
  from Cons.IH [OF rest] obtain es2 new2 where
    es2: "trace w' = trace w1 @ es2" "filter is_navigate es2 = []"
      "length (filter is_card_seen es2) = length cs"
    and new2: "data' = data1 @ new2" "length new2 = length (filter is_download_ok es2)"
      "length new2 \<le> length cs" "\<forall>r \<in> set new2. \<exists>c \<in> set cs. card_listing (os_name E) c = Some r"
    by blast
  from here show ?case
  proof (elim disjE conjE exE)
    assume "data1 = data" "filter is_download_ok es1 = []"
    with es1 es2 new2 show ?thesis
      by (intro exI [of _ "es1 @ es2"] exI [of _ new2]) auto
  next
    fix r
    assume "data1 = data @ [r]" "length (filter is_download_ok es1) = 1"
      "card_listing (os_name E) c = Some r"
    with es1 es2 new2 show ?thesis
      by (intro exI [of _ "es1 @ es2"] exI [of _ "r # new2"]) auto
  qed
qed

lemma scrape_cards_current:
  "scrape_cards E cs data w = (data', w') \<Longrightarrow> current w' = current w"
proof (induction cs arbitrary: data w)
  case Nil
  then show ?case by simp
next
  case (Cons c cs)
  obtain data1 w1 where step: "process_card E c data w = (data1, w1)"
    by (cases "process_card E c data w")
  with Cons.prems have "scrape_cards E cs data1 w1 = (data', w')" by simp
  from Cons.IH [OF this] process_card_run(2) [OF step] show ?case by simp
qed

text \<open>The records a run of the page loop adds, each from a card of a page of the site,
  are as many as the successful downloads, and at most as many as the cards seen.\<close>

lemma scrape_pages_run:
  assumes "scrape_pages E websitelink n ps data w = Some (res, w')"
    and "current w = site E u"
  shows "\<exists>es. trace w' = trace w @ es
           \<and> (\<forall>data'. res = Inr data' \<longrightarrow>
                 (\<exists>new. data' = data @ new
                    \<and> length new = length (filter is_download_ok es)
                    \<and> length new \<le> length (filter is_card_seen es)
                    \<and> (\<forall>r \<in> set new. from_site E r)))"
  using assms
proof (induction ps arbitrary: data w u)
  case Nil
  then show ?case by (intro exI [of _ "[]"]) auto
next
  case (Cons page ps)
  obtain r0 v0 where found: "find_cards E w = (r0, v0)"
    by (cases "find_cards E w")
  from quiet_step_find_cards [OF found] obtain es0 where
    es0: "trace v0 = trace w @ es0" "\<forall>e \<in> set es0. quiet e" and cur0: "current v0 = current w"
    by (auto simp: quiet_step_def)
  note f0 = quiet_filters [OF es0(2)]
  show ?case
  proof (cases r0)
    case (Inl e)
    with Cons.prems(1) found have "res = Inl e" "w' = v0" by simp_all
    with es0 show ?thesis by (intro exI [of _ es0]) simp
  next
    case (Inr cs)
    with found have cs: "cs = cards (current w)" by (simp add: find_cards_found)
    obtain data1 w1 where cards_done: "scrape_cards E cs data v0 = (data1, w1)"
      by (cases "scrape_cards E cs data v0")
    from scrape_cards_run [OF cards_done] obtain es1 new1 where
      es1: "trace w1 = trace v0 @ es1" "length (filter is_card_seen es1) = length cs"
      and new1: "data1 = data @ new1" "length new1 = length (filter is_download_ok es1)"
        "length new1 \<le> length cs"
        "\<forall>r \<in> set new1. \<exists>c \<in> set cs. card_listing (os_name E) c = Some r"
      by blast
    from new1(4) cs Cons.prems(2) have site1: "\<forall>r \<in> set new1. from_site E r"
      unfolding from_site_def by metis
    from scrape_cards_current [OF cards_done] cur0 Cons.prems(2)
    have cur1: "current w1 = site E u" by simp
    have "\<exists>mid. trace w' = trace w1 @ mid
            \<and> (\<forall>data'. res = Inr data' \<longrightarrow>
                  (\<exists>new. data' = data1 @ new
                     \<and> length new = length (filter is_download_ok mid)
                     \<and> length new \<le> length (filter is_card_seen mid)
                     \<and> (\<forall>r \<in> set new. from_site E r)))"
    proof (cases "page < n")
      case False
      with Cons.prems(1) found Inr cards_done
      have "scrape_pages E websitelink n ps data1 w1 = Some (res, w')" by simp
      from Cons.IH [OF this cur1] show ?thesis .
    next
      case True
      let ?url = "websitelink @ ''&page='' @ str_int (page + 1)"
      from Cons.prems(1) found Inr cards_done True obtain r2 w2 where
        load: "get_wait_scroll E ?url w1 = Some (r2, w2)"
        by (cases "get_wait_scroll E ?url w1") auto
      from get_wait_scroll_run(1) [OF load] obtain es2 where
        es2: "trace w2 = trace w1 @ Navigate ?url # es2" "\<forall>e \<in> set es2. quiet e"
        by blast
      note f = quiet_filters [OF es2(2)]
      show ?thesis
      proof (cases r2)
        case (Inl e)
        with Cons.prems(1) found \<open>r0 = Inr cs\<close> cards_done True load
        have "res = Inl e" "w' = w2" by simp_all
        with es2 show ?thesis
          by (intro exI [of _ "Navigate ?url # es2"]) simp
      next
        case loaded: (Inr x)
        with Cons.prems(1) found \<open>r0 = Inr cs\<close> cards_done True load
        have "scrape_pages E websitelink n ps data1 w2 = Some (res, w')" by simp
        from Cons.IH [OF this get_wait_scroll_run(2) [OF load loaded]] obtain es3 where
          es3: "trace w' = trace w2 @ es3"
            "\<forall>data'. res = Inr data' \<longrightarrow>
               (\<exists>new. data' = data1 @ new
                  \<and> length new = length (filter is_download_ok es3)
                  \<and> length new \<le> length (filter is_card_seen es3)
                  \<and> (\<forall>r \<in> set new. from_site E r))"
          by blast
        with es2 f show ?thesis
          by (intro exI [of _ "Navigate ?url # es2 @ es3"]) simp
      qed
    qed
    then obtain mid where
      mid: "trace w' = trace w1 @ mid"
        "\<forall>data'. res = Inr data' \<longrightarrow>
           (\<exists>new. data' = data1 @ new
              \<and> length new = length (filter is_download_ok mid)
              \<and> length new \<le> length (filter is_card_seen mid)
              \<and> (\<forall>r \<in> set new. from_site E r))"
      by blast
    have "\<exists>new. data' = data @ new
            \<and> length new = length (filter is_download_ok (es0 @ es1 @ mid))
            \<and> length new \<le> length (filter is_card_seen (es0 @ es1 @ mid))
            \<and> (\<forall>r \<in> set new. from_site E r)" if "res = Inr data'" for data'
    proof -
      from mid(2) that obtain new where
        "data' = data1 @ new" "length new = length (filter is_download_ok mid)"
        "length new \<le> length (filter is_card_seen mid)" "\<forall>r \<in> set new. from_site E r"
        by blast
      with new1 es1 site1 f0 show ?thesis
        by (intro exI [of _ "new1 @ new"]) auto
    qed
    with mid(1) es1(1) es0(1) show ?thesis
      by (intro exI [of _ "es0 @ es1 @ mid"]) simp
  qed
qed

lemma scrape_olx_run:
  assumes "scrape_olx E websitelink w = Some (res, w')"
  shows "\<exists>es. trace w' = trace w @ es
           \<and> (\<forall>data. res = Inr data \<longrightarrow>
                 length data = length (filter is_download_ok es)
                 \<and> length data \<le> length (filter is_card_seen es)
                 \<and> (\<forall>r \<in> set data. from_site E r))"
proof -
  from assms obtain r1 w1 where load: "get_wait_scroll E websitelink w = Some (r1, w1)"
    by (cases "get_wait_scroll E websitelink w") (auto simp: scrape_olx_def)
  from get_wait_scroll_run(1) [OF load] obtain es1 where
    es1: "trace w1 = trace w @ Navigate websitelink # es1" "\<forall>e \<in> set es1. quiet e"
    by blast
  note f = quiet_filters [OF es1(2)]
  show ?thesis
  proof (cases r1)
    case (Inl e)
    with assms load have "res = Inl e" "w' = w1" by (simp_all add: scrape_olx_def)
    with es1 show ?thesis
      by (intro exI [of _ "Navigate websitelink # es1"]) simp
  next
    case loaded: (Inr x)
    obtain r2 w2 where found: "find_pagination E w1 = (r2, w2)"
      by (cases "find_pagination E w1")
    from quiet_step_find_pagination [OF found] obtain es2 where
      es2: "trace w2 = trace w1 @ es2" "\<forall>e \<in> set es2. quiet e"
      and same2: "current w2 = current w1" "fs w2 = fs w1"
      by (auto simp: quiet_step_def)
    note f2 = quiet_filters [OF es2(2)]
    show ?thesis
    proof (cases r2)
      case (Inl e)
      with assms load loaded found have "res = Inl e" "w' = w2"
        by (simp_all add: scrape_olx_def)
      with es1 es2 show ?thesis
        by (intro exI [of _ "Navigate websitelink # es1 @ es2"]) simp
    next
      case items: (Inr pages)
      show ?thesis
      proof (cases "number_of_pages E pages")
        case (Inl e)
        with assms load loaded found items have "res = Inl e" "w' = w2"
          by (simp_all add: scrape_olx_def)
        with es1 es2 show ?thesis
          by (intro exI [of _ "Navigate websitelink # es1 @ es2"]) simp
      next
        case count: (Inr n)
        let ?w3 = "emit (Makedirs IMAGE_DIR) w2"
        show ?thesis
        proof (cases "fs w2 IMAGE_DIR = None")
          case False
          with assms load loaded found items count
          have "res = Inl (FileExistsError IMAGE_DIR)" "w' = ?w3"
            by (auto simp: scrape_olx_def makedirs_def Let_def emit_def)
          with es1 es2 show ?thesis
            by (intro exI [of _ "Navigate websitelink # es1 @ es2 @ [Makedirs IMAGE_DIR]"])
               (simp add: emit_def)
        next
          case True
          with assms load loaded found items count
          have loop: "scrape_pages E websitelink n [1..n] [] ?w3 = Some (res, w')"
            by (simp add: scrape_olx_def makedirs_def Let_def emit_def)
          have cur: "current ?w3 = site E websitelink"
            using get_wait_scroll_run(2) [OF load loaded] same2 by (simp add: emit_def)
          from scrape_pages_run [OF loop cur] obtain es3 where
            es3: "trace w' = trace ?w3 @ es3"
              "\<forall>data'. res = Inr data' \<longrightarrow>
                 (\<exists>new. data' = [] @ new
                    \<and> length new = length (filter is_download_ok es3)
                    \<and> length new \<le> length (filter is_card_seen es3)
                    \<and> (\<forall>r \<in> set new. from_site E r))"
            by blast
          with es1 es2 f f2 show ?thesis
            by (intro exI [of _ "Navigate websitelink # es1 @ es2 @ Makedirs IMAGE_DIR # es3"])
               (auto simp: emit_def)
        qed
      qed
    qed
  qed
qed

section \<open>Running the examples\<close>

text \<open>The three ways a round of the scroll loop can go, as conditional equations.\<close>

lemma scroll_to_bottom_failed:
  "isl (fst (scroll_once E scroll_pause w)) \<Longrightarrow>
   scroll_to_bottom E scroll_pause last_height w
     = Some (Inl (projl (fst (scroll_once E scroll_pause w))),
             snd (scroll_once E scroll_pause w))"
  by (subst scroll_to_bottom.simps) (auto split: prod.splits sum.splits)

lemma scroll_to_bottom_stable:
  "fst (scroll_once E scroll_pause w) = Inr last_height \<Longrightarrow>
   scroll_to_bottom E scroll_pause last_height w
     = Some (Inr (), snd (scroll_once E scroll_pause w))"
  by (subst scroll_to_bottom.simps) (auto split: prod.splits sum.splits)

lemma scroll_to_bottom_grown:
  "\<not> isl (fst (scroll_once E scroll_pause w)) \<Longrightarrow>
   projr (fst (scroll_once E scroll_pause w)) \<noteq> last_height \<Longrightarrow>
   scroll_to_bottom E scroll_pause last_height w
     = scroll_to_bottom E scroll_pause (projr (fst (scroll_once E scroll_pause w)))
         (snd (scroll_once E scroll_pause w))"
  by (subst scroll_to_bottom.simps) (auto split: prod.splits sum.splits)

lemmas driver_defs = driver_command_def execute_script_def read_scroll_height_def
  find_cards_def find_pagination_def driver_get_def wait_for_cards_def scroll_to_card_def
  scroll_once_def body_scroll_height_def time_sleep_def emit_def Let_def

lemmas run_defs = scrape_olx_def get_wait_scroll_def slow_scroll_page_def
  scroll_to_bottom_failed scroll_to_bottom_stable scroll_to_bottom_grown driver_defs
  number_of_pages_def makedirs_def process_card_def extract_card_def
  find_element_def img_filename_of_def os_path_join_def posix_join_def replace_spaces_def
  str_split_def listing_dict_def download_image_def download_attempts.simps retry_pause_def
  requests_get_def write_file_def print_def RETRIES_def DELAY_def IMAGE_DIR_def
  SCROLL_PAUSE_TIME_def upt_rec has_returned_def returned_def final_world_def new_events_def

lemmas site_defs = example_env_def w0_def blank_page_def image_server_def disk_ok_def
  plain_site_def one_page_site_def two_page_site_def page_one_def page_two_def
  card_a_def card_b_def card_c_def card_d_def decimal_def

lemma returned_run:
  "has_returned x \<Longrightarrow> x = Some (Inr (returned x), final_world x w)"
  by (auto simp: has_returned_def returned_def final_world_def split: option.splits sum.splits)

lemma pages_1_2: "[1..1] = [1::int]" "[1..2] = [1::int, 2]"
  by (simp_all add: upto.simps)

lemma str_int_2: "str_int 2 = ''2''"
  by (simp add: str_int_def str_nat.simps)

lemmas run_simps = run_defs site_defs pages_1_2 str_int_2

lemma two_page_run_returned: "has_returned two_page_run"
  by (simp add: two_page_run_def run_simps)

lemma plain_run_returned: "has_returned plain_run"
  by (simp add: plain_run_def run_simps)

lemma one_page_run_returned: "has_returned one_page_run"
  by (simp add: one_page_run_def run_simps)

section \<open>Properties of scrape_olx\<close>

text \<open>
  C3. The list that \<^verbatim>\<open>scrape_olx\<close> returns has as many records as there were calls of
  \<^verbatim>\<open>download_image\<close> in the run that returned \<open>True\<close>, and at most as many as there
  were cards in the card loop over all the pages visited.
\<close>

theorem scrape_olx_cardinality:
  assumes "scrape_olx E websitelink w = Some (Inr data, w')"
  shows "length data = length (filter is_download_ok (new_events w w'))
       \<and> length data \<le> length (filter is_card_seen (new_events w w'))"
proof -
  from scrape_olx_run [OF assms] obtain es where
    "trace w' = trace w @ es"
    "length data = length (filter is_download_ok es)"
    "length data \<le> length (filter is_card_seen es)"
    by blast
  then show ?thesis by (simp add: new_events_def)
qed

theorem scrape_olx_cardinality_witness:
  "has_returned two_page_run
   \<and> length (returned two_page_run)
     = length (filter is_download_ok (new_events w0 (final_world two_page_run w0)))
   \<and> length (returned two_page_run)
     \<le> length (filter is_card_seen (new_events w0 (final_world two_page_run w0)))
   \<and> length (returned two_page_run) = 2
   \<and> length (filter is_card_seen (new_events w0 (final_world two_page_run w0))) = 4"
proof -
  have run: "scrape_olx (example_env image_server disk_ok two_page_site) ''http://olx/q'' w0
      = Some (Inr (returned two_page_run), final_world two_page_run w0)"
    using returned_run [OF two_page_run_returned, of w0] by (simp add: two_page_run_def)
  have "length (returned two_page_run) = 2"
    by (simp add: two_page_run_def run_simps)
  moreover have "length (filter is_card_seen (new_events w0 (final_world two_page_run w0))) = 4"
    by (simp add: two_page_run_def run_simps)
  ultimately show ?thesis
    using scrape_olx_cardinality [OF run] two_page_run_returned by simp
qed

text \<open>
  C5. Without a pagination item the page count is 1. When the page behind the link has
  no pagination item, or its last item reads 1, the page count is 1 and a finished run
  of \<^verbatim>\<open>scrape_olx\<close> has navigated exactly once, to the link itself.
\<close>

theorem single_page_is_visited_once:
  assumes "scrape_olx E websitelink w = Some (res, w')"
    and "pagination (site E websitelink) = []
       \<or> py_int E (last (pagination (site E websitelink))) = Some 1"
  shows "number_of_pages E [] = Inr 1
       \<and> number_of_pages E (pagination (site E websitelink)) = Inr 1
       \<and> filter is_navigate (new_events w w') = [Navigate websitelink]"
proof -
  have pages: "number_of_pages E (pagination (site E websitelink)) = Inr 1"
    using assms(2) by (auto simp: number_of_pages_def)
  have visits: "filter is_navigate (new_events w w') = [Navigate websitelink]"
  proof -
    from assms(1) obtain r1 v1 where load: "get_wait_scroll E websitelink w = Some (r1, v1)"
      by (cases "get_wait_scroll E websitelink w") (auto simp: scrape_olx_def)
    from get_wait_scroll_run(1) [OF load] obtain es1 where
      es1: "trace v1 = trace w @ Navigate websitelink # es1" "\<forall>e \<in> set es1. quiet e"
      by blast
    note f = quiet_filters [OF es1(2)]
    show ?thesis
    proof (cases r1)
      case (Inl e)
      with assms(1) load have "w' = v1" by (simp add: scrape_olx_def)
      with es1 f show ?thesis by (simp add: new_events_def)
    next
      case loaded: (Inr x)
      obtain r2 v2 where found: "find_pagination E v1 = (r2, v2)"
        by (cases "find_pagination E v1")
      from quiet_step_find_pagination [OF found] obtain es2 where
        es2: "trace v2 = trace v1 @ es2" "\<forall>e \<in> set es2. quiet e"
        by (auto simp: quiet_step_def)
      note f2 = quiet_filters [OF es2(2)]
      show ?thesis
      proof (cases r2)
        case (Inl e)
        with assms(1) load loaded found have "w' = v2" by (simp add: scrape_olx_def)
        with es1 es2 f f2 show ?thesis by (simp add: new_events_def)
      next
        case items: (Inr ps)
        with found get_wait_scroll_run(2) [OF load loaded]
        have "ps = pagination (site E websitelink)" by (auto dest: find_pagination_found)
        with pages have one: "number_of_pages E ps = Inr 1" by simp
        let ?v3 = "emit (Makedirs IMAGE_DIR) v2"
        show ?thesis
        proof (cases "fs v2 IMAGE_DIR = None")
          case False
          with assms(1) load loaded found items one have "w' = ?v3"
            by (auto simp: scrape_olx_def makedirs_def Let_def emit_def)
          with es1 es2 f f2 show ?thesis by (simp add: new_events_def emit_def)
        next
          case True
          with assms(1) load loaded found items one
          have loop: "scrape_pages E websitelink 1 [1..1] [] ?v3 = Some (res, w')"
            by (simp add: scrape_olx_def makedirs_def Let_def emit_def)
          have only: "[1..1] = [1::int]" by (simp add: upto.simps)
          obtain r4 v4 where cards_found: "find_cards E ?v3 = (r4, v4)"
            by (cases "find_cards E ?v3")
          from quiet_step_find_cards [OF cards_found] obtain es4 where
            es4: "trace v4 = trace ?v3 @ es4" "\<forall>e \<in> set es4. quiet e"
            by (auto simp: quiet_step_def)
          note f4 = quiet_filters [OF es4(2)]
          show ?thesis
          proof (cases r4)
            case (Inl e)
            with loop only cards_found have "w' = v4" by simp
            with es1 es2 es4 f f2 f4 show ?thesis by (simp add: new_events_def emit_def)
          next
            case (Inr cs)
            obtain data5 v5 where cards_done: "scrape_cards E cs [] v4 = (data5, v5)"
              by (cases "scrape_cards E cs [] v4")
            with loop only cards_found Inr have "w' = v5" by simp
            moreover from scrape_cards_run [OF cards_done] obtain es5 where
              "trace v5 = trace v4 @ es5" "filter is_navigate es5 = []"
              by blast
            ultimately show ?thesis
              using es1 es2 es4 f f2 f4 by (simp add: new_events_def emit_def)
          qed
        qed
      qed
    qed
  qed
  show ?thesis
    using pages visits by (simp add: number_of_pages_def)
qed

theorem single_page_is_visited_once_witness:
  "has_returned plain_run
   \<and> pagination (site (example_env image_server disk_ok plain_site) ''http://olx/q'') = []
   \<and> filter is_navigate (new_events w0 (final_world plain_run w0)) = [Navigate ''http://olx/q'']
   \<and> has_returned one_page_run
   \<and> py_int (example_env image_server disk_ok one_page_site)
        (last (pagination (site (example_env image_server disk_ok one_page_site) ''http://olx/q'')))
      = Some 1
   \<and> filter is_navigate (new_events w0 (final_world one_page_run w0)) = [Navigate ''http://olx/q'']"
proof -
  have run1: "scrape_olx (example_env image_server disk_ok plain_site) ''http://olx/q'' w0
      = Some (Inr (returned plain_run), final_world plain_run w0)"
    using returned_run [OF plain_run_returned, of w0] by (simp add: plain_run_def)
  have absent: "pagination (site (example_env image_server disk_ok plain_site) ''http://olx/q'') = []"
    by (simp add: example_env_def plain_site_def)
  have run2: "scrape_olx (example_env image_server disk_ok one_page_site) ''http://olx/q'' w0
      = Some (Inr (returned one_page_run), final_world one_page_run w0)"
    using returned_run [OF one_page_run_returned, of w0] by (simp add: one_page_run_def)
  have reads_1: "py_int (example_env image_server disk_ok one_page_site)
        (last (pagination (site (example_env image_server disk_ok one_page_site) ''http://olx/q'')))
      = Some 1"
    by (simp add: example_env_def one_page_site_def decimal_def)
  from single_page_is_visited_once [OF run1] absent
    single_page_is_visited_once [OF run2] reads_1
    plain_run_returned one_page_run_returned
  show ?thesis by simp
qed

section \<open>Properties of the records\<close>

lemma extract_card_fields:
  assumes "extract_card c = Inr (name, price, location, timeposted, image_url, ad_url)"
  shows "h6_text c = Some name" and "ad_price_text c = Some price"
    and "img_src c = Some image_url" and "a_href c = Some ad_url"
    and "\<exists>t. location_date_text c = Some t
           \<and> (location, timeposted)
             = (if length (str_split t '' - '') = 2
                then (str_split t '' - '' ! 0, str_split t '' - '' ! 1) else ('''', ''''))"
  using assms
  by (auto simp: extract_card_def find_element_def Let_def
        split: option.splits sum.splits if_splits prod.splits)

lemma card_listing_fields:
  assumes "card_listing os c = Some r"
  shows "\<exists>name price location timeposted image_url ad_url.
           extract_card c = Inr (name, price, location, timeposted, image_url, ad_url)
           \<and> r = listing_dict name price location timeposted (img_filename_of os name) ad_url"
  using assms by (auto simp: card_listing_def split: sum.splits)

lemma listing_dict_dom:
  "dom (listing_dict name price location timeposted img_filename ad_url) = listing_keys"
  by (auto simp: listing_dict_def listing_keys_def)

lemma listing_dict_values:
  "listing_dict name price location timeposted img_filename ad_url ''Name'' = Some name"
  "listing_dict name price location timeposted img_filename ad_url ''Price'' = Some price"
  "listing_dict name price location timeposted img_filename ad_url ''Location'' = Some location"
  "listing_dict name price location timeposted img_filename ad_url ''Time Posted''
     = Some timeposted"
  "listing_dict name price location timeposted img_filename ad_url ''Image File''
     = Some img_filename"
  "listing_dict name price location timeposted img_filename ad_url ''Ad URL'' = Some ad_url"
  by (simp_all add: listing_dict_def)

lemma card_listing_keys: "card_listing os c = Some r \<Longrightarrow> dom r = listing_keys"
  using card_listing_fields listing_dict_dom by blast

lemma card_listing_no_date:
  assumes "card_listing os c = Some r" and "location_date_text c = Some t"
    and "length (str_split t '' - '') \<noteq> 2"
  shows "r ''Location'' = Some '''' \<and> r ''Time Posted'' = Some ''''"
proof -
  from card_listing_fields [OF assms(1)] obtain name price location timeposted image_url ad_url
    where ex: "extract_card c = Inr (name, price, location, timeposted, image_url, ad_url)"
      and r: "r = listing_dict name price location timeposted (img_filename_of os name) ad_url"
    by blast
  from extract_card_fields(5) [OF ex] assms(2,3) have "location = ''''" "timeposted = ''''"
    by auto
  with r show ?thesis by (simp add: listing_dict_values)
qed

text \<open>
  C9. Every record that \<^verbatim>\<open>scrape_olx\<close> returns has exactly the six keys Name, Price,
  Location, Time Posted, Image File and Ad URL, and is the record of a card of a page of
  the site; and for whichever card it is the record of, if the card's location-date
  text does not split at \<^verbatim>\<open>" - "\<close> into exactly two parts, its Location and Time Posted
  are both the empty string.
\<close>

theorem scraped_record_shape:
  assumes "scrape_olx E websitelink w = Some (Inr data, w')" and "r \<in> set data"
  shows "dom r = listing_keys
       \<and> from_site E r
       \<and> (\<forall>os c t. card_listing os c = Some r \<and> location_date_text c = Some t
                 \<and> length (str_split t '' - '') \<noteq> 2
              \<longrightarrow> r ''Location'' = Some '''' \<and> r ''Time Posted'' = Some '''')"
proof -
  from scrape_olx_run [OF assms(1)] assms(2) have site: "from_site E r" by blast
  then have "dom r = listing_keys"
    by (auto simp: from_site_def dest: card_listing_keys)
  with site show ?thesis
    using card_listing_no_date by blast
qed

lemma two_page_run_records:
  "returned two_page_run = [the (card_listing Posix card_a), the (card_listing Posix card_c)]"
  by (simp add: two_page_run_def card_listing_def run_simps)

theorem scraped_record_shape_witness:
  "has_returned two_page_run
   \<and> returned two_page_run ! 1 \<in> set (returned two_page_run)
   \<and> dom (returned two_page_run ! 1) = listing_keys
   \<and> card_listing Posix card_c = Some (returned two_page_run ! 1)
   \<and> location_date_text card_c = Some ''Lviv''
   \<and> length (str_split ''Lviv'' '' - '') \<noteq> 2
   \<and> (returned two_page_run ! 1) ''Name'' = Some ''Lamp''
   \<and> (returned two_page_run ! 1) ''Location'' = Some ''''
   \<and> (returned two_page_run ! 1) ''Time Posted'' = Some ''''
   \<and> (returned two_page_run ! 0) ''Location'' = Some ''Kyiv''
   \<and> (returned two_page_run ! 0) ''Time Posted'' = Some ''Today 10:00''"
proof -
  have run: "scrape_olx (example_env image_server disk_ok two_page_site) ''http://olx/q'' w0
      = Some (Inr (returned two_page_run), final_world two_page_run w0)"
    using returned_run [OF two_page_run_returned, of w0] by (simp add: two_page_run_def)
  have mem: "returned two_page_run ! 1 \<in> set (returned two_page_run)"
    by (simp add: two_page_run_records)
  have lamp: "card_listing Posix card_c = Some (returned two_page_run ! 1)"
    by (simp add: two_page_run_records card_listing_def card_c_def extract_card_def
          find_element_def str_split_def Let_def)
  have loc: "location_date_text card_c = Some ''Lviv''"
    by (simp add: card_c_def)
  have parts: "length (str_split ''Lviv'' '' - '') \<noteq> 2"
    by (simp add: str_split_def)
  have vals: "(returned two_page_run ! 1) ''Name'' = Some ''Lamp''"
    "(returned two_page_run ! 0) ''Location'' = Some ''Kyiv''"
    "(returned two_page_run ! 0) ''Time Posted'' = Some ''Today 10:00''"
    by (simp_all add: two_page_run_records card_listing_def card_a_def card_c_def
          extract_card_def find_element_def str_split_def Let_def listing_dict_def)
  from scraped_record_shape [OF run mem] lamp loc parts vals mem two_page_run_returned
  show ?thesis by blast
qed

section \<open>The path of the image file\<close>

text \<open>For a name that does not begin with a separator and has no drive, the image path
  lies in the image directory.\<close>

lemma img_filename_of_posix:
  "take 1 name \<noteq> ''/'' \<Longrightarrow>
   img_filename_of Posix name = ''images/'' @ replace_spaces name @ ''.jpg''"
  by (cases name)
    (auto simp: img_filename_of_def os_path_join_def posix_join_def IMAGE_DIR_def
       replace_spaces_def)

lemma same_name_same_path:
  assumes "card_listing os c1 = Some r1" and "card_listing os c2 = Some r2"
    and "h6_text c1 = h6_text c2"
  shows "r1 ''Image File'' = r2 ''Image File''"
proof -
  from card_listing_fields [OF assms(1)] obtain n1 p1 l1 t1 i1 a1 where
    c1: "extract_card c1 = Inr (n1, p1, l1, t1, i1, a1)"
    "r1 = listing_dict n1 p1 l1 t1 (img_filename_of os n1) a1"
    by blast
  from card_listing_fields [OF assms(2)] obtain n2 p2 l2 t2 i2 a2 where
    c2: "extract_card c2 = Inr (n2, p2, l2, t2, i2, a2)"
    "r2 = listing_dict n2 p2 l2 t2 (img_filename_of os n2) a2"
    by blast
  from extract_card_fields(1) [OF c1(1)] extract_card_fields(1) [OF c2(1)] assms(3)
  have "n1 = n2" by simp
  with c1(2) c2(2) show ?thesis by (simp add: listing_dict_values)
qed

text \<open>
  C10. The claim gives the image path as \<^verbatim>\<open>images/<name with underscores>.jpg\<close>, and
  line 78 creates the directory \<^verbatim>\<open>images\<close> for it. Line 91 builds the path with
  \<^verbatim>\<open>os.path.join\<close>, which drops the directory when the name begins with a slash (on
  Windows also with a backslash, or when it has a drive). For the card named
  \<^verbatim>\<open>/tmp/x y\<close> the image is written to \<^verbatim>\<open>/tmp/x_y.jpg\<close>, outside the image directory,
  and that path is what the record holds; nothing is written under \<^verbatim>\<open>images\<close>.
\<close>

theorem image_path_leaves_image_dir:
  "img_filename_of Posix ''/tmp/x y'' = ''/tmp/x_y.jpg''
   \<and> fst (process_card (example_env image_server disk_ok plain_site) card_abs [] w0)
      = [listing_dict ''/tmp/x y'' ''1'' ''Kyiv'' ''Today'' ''/tmp/x_y.jpg'' ''http://olx/x'']
   \<and> fs (snd (process_card (example_env image_server disk_ok plain_site) card_abs [] w0))
      = [''/tmp/x_y.jpg'' \<mapsto> Raw tiny_gif]
   \<and> fs (snd (process_card (example_env image_server disk_ok plain_site) card_abs [] w0))
        ''images//tmp/x_y.jpg'' = None
   \<and> fs (snd (process_card windows_env card_abs [] w0)) = [''/tmp/x_y.jpg'' \<mapsto> Raw tiny_gif]
   \<and> img_filename_of Nt ''C:x'' = ''C:x.jpg''
   \<and> img_filename_of Nt ([CHR 0x5C] @ ''x'') = [CHR 0x5C] @ ''x.jpg''
   \<and> img_filename_of Nt ''Red bike'' = ''images'' @ [CHR 0x5C] @ ''Red_bike.jpg''
   \<and> img_filename_of Posix ''Red bike'' = ''images/Red_bike.jpg''"
  by (simp add: card_abs_def windows_env_def nt_join_def run_simps)

section \<open>Properties of save_to_excel\<close>

lemma check_string_accepted: "accepted v \<Longrightarrow> check_string v = Inr (take 32767 v)"
  by (simp add: check_string_def accepted_def)

lemma check_string_refused: "\<not> accepted v \<Longrightarrow> \<exists>e. check_string v = Inl e"
  by (simp add: check_string_def accepted_def)

lemma check_cells_accepted:
  "list_all accepted row \<Longrightarrow> check_cells row = Inr (map (take 32767) row)"
  by (induction row) (simp_all add: check_string_accepted)

lemma check_cells_refused: "\<not> list_all accepted row \<Longrightarrow> \<exists>e. check_cells row = Inl e"
proof (induction row)
  case Nil
  then show ?case by simp
next
  case (Cons v row)
  show ?case
  proof (cases "accepted v")
    case True
    with Cons obtain e where "check_cells row = Inl e" by auto
    with True show ?thesis by (simp add: check_string_accepted)
  next
    case False
    from check_string_refused [OF this] show ?thesis by auto
  qed
qed

lemma accepted_empty: "accepted []"
  by (simp add: accepted_def)

lemma written_cell_saved: "written_cell (take 32767 v) = saved_cell v"
  by (cases v) (simp_all add: written_cell_def saved_cell_def)

text \<open>The cells that a record puts into the sheet.\<close>

lemma entry_row_keys:
  assumes "listing_keys \<subseteq> dom r"
  shows "entry_row r = Inr [the (r ''Name''), the (r ''Price''), the (r ''Location''),
                            the (r ''Time Posted''), '''', the (r ''Ad URL'')]"
proof -
  from assms have "''Name'' \<in> dom r" "''Price'' \<in> dom r" "''Location'' \<in> dom r"
    "''Time Posted'' \<in> dom r" "''Ad URL'' \<in> dom r"
    by (auto simp: listing_keys_def)
  then show ?thesis
    by (auto simp: entry_row_def getitem_def)
qed

lemma entry_row_raises:
  assumes "entry_row r = Inr row"
  shows "{''Name'', ''Price'', ''Location'', ''Time Posted'', ''Ad URL''} \<subseteq> dom r"
    and "row = [the (r ''Name''), the (r ''Price''), the (r ''Location''),
                the (r ''Time Posted''), '''', the (r ''Ad URL'')]"
  using assms
  by (auto simp: entry_row_def getitem_def split: option.splits sum.splits)

lemma load_image_loadable:
  "loadable E w r \<Longrightarrow> \<exists>path. getitem r ''Image File'' = Inr path \<and> load_image E w path = Inr path"
  by (auto simp: loadable_def getitem_def load_image_def
        split: option.splits file_content.splits)

lemma load_image_not_loadable:
  "\<not> loadable E w r \<Longrightarrow> getitem r ''Image File'' = Inr path \<Longrightarrow>
   \<exists>e. load_image E w path = Inl e"
  by (auto simp: loadable_def getitem_def load_image_def
        split: option.splits file_content.splits)

lemma add_entry_savable:
  assumes "savable E w r"
  shows "\<exists>ws'. add_entry E w r ws = Inr ws'
           \<and> map (map written_cell) (rows ws')
             = map (map written_cell) (rows ws) @ [expected_row r]"
proof -
  let ?row = "[the (r ''Name''), the (r ''Price''), the (r ''Location''),
               the (r ''Time Posted''), '''', the (r ''Ad URL'')]"
  from assms have row: "entry_row r = Inr ?row"
    by (simp add: savable_def entry_row_keys)
  from assms have "list_all accepted ?row"
    by (simp add: savable_def cell_keys_def accepted_empty)
  then have cells: "check_cells ?row = Inr (map (take 32767) ?row)"
    by (rule check_cells_accepted)
  from assms obtain path where
    path: "getitem r ''Image File'' = Inr path" "load_image E w path = Inr path"
    using load_image_loadable [of E w r] by (auto simp: savable_def)
  have "map written_cell (map (take 32767) ?row) = expected_row r"
    by (simp add: expected_row_def written_cell_saved) (simp add: written_cell_def)
  with row cells path show ?thesis
    by (simp add: add_entry_def ws_append_def Let_def)
qed

lemma add_entry_not_savable:
  assumes "\<not> savable E w r"
  shows "\<exists>e. add_entry E w r ws = Inl e"
proof (cases "entry_row r")
  case (Inl e)
  then show ?thesis by (simp add: add_entry_def)
next
  case row: (Inr cells)
  note fields = entry_row_raises [OF row]
  show ?thesis
  proof (cases "list_all accepted cells")
    case False
    from check_cells_refused [OF this] row show ?thesis
      by (auto simp: add_entry_def ws_append_def)
  next
    case True
    then have cells: "check_cells cells = Inr (map (take 32767) cells)"
      by (rule check_cells_accepted)
    show ?thesis
    proof (cases "getitem r ''Image File''")
      case (Inl e)
      with row cells show ?thesis by (simp add: add_entry_def ws_append_def)
    next
      case path: (Inr image_file)
      then have "''Image File'' \<in> dom r"
        by (auto simp: getitem_def split: option.splits)
      with fields(1) have keys: "listing_keys \<subseteq> dom r"
        by (auto simp: listing_keys_def)
      from True fields(2) have "list_all (\<lambda>k. accepted (the (r k))) cell_keys"
        by (simp add: cell_keys_def)
      with keys assms have "\<not> loadable E w r" by (simp add: savable_def)
      from load_image_not_loadable [OF this path] row cells path show ?thesis
        by (auto simp: add_entry_def ws_append_def)
    qed
  qed
qed

lemma add_entries_rows:
  assumes "\<forall>r \<in> set data. savable E w r"
  shows "\<exists>ws'. add_entries E w data ws = Inr ws'
           \<and> map (map written_cell) (rows ws')
             = map (map written_cell) (rows ws) @ map expected_row data"
  using assms
proof (induction data arbitrary: ws)
  case Nil
  then show ?case by simp
next
  case (Cons r data)
  from Cons.prems add_entry_savable [of E w r ws] obtain ws1 where
    ws1: "add_entry E w r ws = Inr ws1"
      "map (map written_cell) (rows ws1) = map (map written_cell) (rows ws) @ [expected_row r]"
    by auto
  from Cons.prems have "\<forall>r \<in> set data. savable E w r" by simp
  from Cons.IH [OF this, of ws1] ws1 show ?case by auto
qed

lemma add_entries_fails:
  assumes "\<exists>r \<in> set data. \<not> savable E w r"
  shows "\<exists>e. add_entries E w data ws = Inl e"
  using assms
proof (induction data arbitrary: ws)
  case Nil
  then show ?case by simp
next
  case (Cons r data)
  show ?case
  proof (cases "savable E w r")
    case False
    from add_entry_not_savable [OF this, of ws] show ?thesis by auto
  next
    case True
    from add_entry_savable [OF this, of ws] obtain ws1 where
      ws1: "add_entry E w r ws = Inr ws1" by blast
    from True Cons.prems have "\<exists>r \<in> set data. \<not> savable E w r" by auto
    from Cons.IH [OF this, of ws1] ws1 show ?thesis by auto
  qed
qed

lemma autosize_columns_rows: "rows (autosize_columns ws) = rows ws"
proof -
  have "rows (fold (\<lambda>j ws'. ws'\<lparr>column_width := (column_width ws')(j + 1 \<mapsto> f j)\<rparr>) js ws') = rows ws'"
    for f :: "nat \<Rightarrow> nat" and js and ws' :: worksheet
    by (induction js arbitrary: ws') simp_all
  then show ?thesis by (simp add: autosize_columns_def)
qed

lemma headers_appended:
  "ws_append headers ws = Inr (ws\<lparr>rows := rows ws @ [headers]\<rparr>)"
  by (simp add: ws_append_def headers_def check_string_def illegal_character_def)

text \<open>
  C4, as amended. For every list of records that have the six keys, whose Name, Price,
  Location, Time Posted and Ad URL hold no control character that the workbook library
  refuses, and whose image files can all be loaded as images, and provided the workbook
  file can be written, \<^verbatim>\<open>save_to_excel\<close> saves a sheet with \<open>len(records) + 1\<close> rows: the
  header row, then for each record the row of its Name, Price, Location, Time Posted,
  an Image cell without value, and its Ad URL. A text of at most 32767 characters is
  saved verbatim, except that the empty text is saved as a cell without value; a longer
  text is cut to its first 32767 characters. If a record lacks a key, holds a refused
  character or its image file cannot be loaded, the call raises and writes nothing.
\<close>

theorem save_to_excel_rows:
  "((\<forall>r \<in> set data. savable E w r) \<and> writable E w filename \<longrightarrow>
      fst (save_to_excel E data filename w) = Inr ()
      \<and> (\<exists>ws. fs (snd (save_to_excel E data filename w)) filename = Some (Xlsx ws)
            \<and> length (rows ws) = length data + 1
            \<and> rows ws ! 0 = map Some headers
            \<and> (\<forall>i < length data. rows ws ! (i + 1) = expected_row (data ! i))))
   \<and> (v \<noteq> [] \<and> length v \<le> 32767 \<longrightarrow> saved_cell v = Some v)
   \<and> ((\<exists>r \<in> set data. \<not> savable E w r) \<longrightarrow>
      (\<exists>e. save_to_excel E data filename w = (Inl e, w)))"
proof (intro conjI impI)
  assume ok: "(\<forall>r \<in> set data. savable E w r) \<and> writable E w filename"
  let ?ws1 = "(new_worksheet\<lparr>title := ''Ad Data''\<rparr>)\<lparr>rows := rows (new_worksheet\<lparr>title := ''Ad Data''\<rparr>) @ [headers]\<rparr>"
  from ok add_entries_rows [of data E w ?ws1] obtain ws2 where
    ws2: "add_entries E w data ?ws1 = Inr ws2"
      "map (map written_cell) (rows ws2)
         = map (map written_cell) (rows ?ws1) @ map expected_row data"
    by blast
  let ?ws = "written (autosize_columns ws2)"
  have "map written_cell headers = map Some headers"
    by (simp add: headers_def written_cell_def)
  with ws2(2) have rows: "rows ?ws = map Some headers # map expected_row data"
    by (simp add: written_def autosize_columns_rows new_worksheet_def)
  from ok ws2(1) have result: "fst (save_to_excel E data filename w) = Inr ()"
    "fs (snd (save_to_excel E data filename w)) filename = Some (Xlsx ?ws)"
    by (simp_all add: save_to_excel_def headers_appended writable_def write_file_def
          emit_def print_def Let_def)
  from result(1) show "fst (save_to_excel E data filename w) = Inr ()" .
  from result(2) rows show "\<exists>ws. fs (snd (save_to_excel E data filename w)) filename = Some (Xlsx ws)
      \<and> length (rows ws) = length data + 1
      \<and> rows ws ! 0 = map Some headers
      \<and> (\<forall>i < length data. rows ws ! (i + 1) = expected_row (data ! i))"
    by (intro exI [of _ ?ws]) simp
next
  assume "v \<noteq> [] \<and> length v \<le> 32767"
  then show "saved_cell v = Some v" by (simp add: saved_cell_def)
next
  assume "\<exists>r \<in> set data. \<not> savable E w r"
  from add_entries_fails [OF this] obtain e where
    "add_entries E w data
       ((new_worksheet\<lparr>title := ''Ad Data''\<rparr>)\<lparr>rows := rows (new_worksheet\<lparr>title := ''Ad Data''\<rparr>) @ [headers]\<rparr>)
     = Inl e"
    by blast
  then show "\<exists>e. save_to_excel E data filename w = (Inl e, w)"
    by (simp add: save_to_excel_def headers_appended)
qed

lemmas save_defs = save_to_excel_def add_entry_def entry_row_def getitem_def load_image_def
  ws_append_def check_string_def illegal_character_def written_def written_cell_def
  max_row_def max_column_def autosize_columns_def cell_str_def new_worksheet_def headers_def
  str_nat.simps write_file_def emit_def print_def Let_def saved_rows_def

lemma two_records_savable:
  "savable (example_env image_server disk_ok plain_site) w_with_images (two_records ! 0)"
  "savable (example_env image_server disk_ok plain_site) w_with_images (two_records ! 1)"
  by (simp_all add: savable_def two_records_def listing_keys_def cell_keys_def accepted_def
        illegal_character_def loadable_def listing_dict_def w_with_images_def w0_def
        example_env_def)

theorem save_to_excel_rows_witness:
  "savable (example_env image_server disk_ok plain_site) w_with_images (two_records ! 0)
   \<and> savable (example_env image_server disk_ok plain_site) w_with_images (two_records ! 1)
   \<and> writable (example_env image_server disk_ok plain_site) w_with_images
        ''ad_data_with_images.xlsx''
   \<and> fst (save_to_excel (example_env image_server disk_ok plain_site) two_records
            ''ad_data_with_images.xlsx'' w_with_images) = Inr ()
   \<and> saved_rows (snd (save_to_excel (example_env image_server disk_ok plain_site) two_records
            ''ad_data_with_images.xlsx'' w_with_images)) ''ad_data_with_images.xlsx''
      = [[Some ''Name'', Some ''Price'', Some ''Location'', Some ''Time Posted'',
          Some ''Image'', Some ''Ad URL''],
         [Some ''Red bike'', Some ''100'', Some ''Kyiv'', Some ''Today 10:00'', None,
          Some ''http://olx/a''],
         [Some ''Lamp'', Some ''5'', None, None, None, Some ''http://olx/c'']]
   \<and> saved_cell ''Lamp'' = Some ''Lamp''
   \<and> \<not> savable (example_env image_server disk_ok plain_site) w0 (two_records ! 0)
   \<and> save_to_excel (example_env image_server disk_ok plain_site) two_records
         ''ad_data_with_images.xlsx'' w0
      = (Inl (FileNotFoundError ''images/Red_bike.jpg''), w0)"
proof -
  let ?E = "example_env image_server disk_ok plain_site"
  note records = two_records_savable
  have all: "\<forall>r \<in> set two_records. savable ?E w_with_images r"
    using records by (simp add: two_records_def)
  have target: "writable ?E w_with_images ''ad_data_with_images.xlsx''"
    by (simp add: writable_def example_env_def disk_ok_def)
  have saved: "saved_rows (snd (save_to_excel ?E two_records ''ad_data_with_images.xlsx''
        w_with_images)) ''ad_data_with_images.xlsx''
      = [[Some ''Name'', Some ''Price'', Some ''Location'', Some ''Time Posted'',
          Some ''Image'', Some ''Ad URL''],
         [Some ''Red bike'', Some ''100'', Some ''Kyiv'', Some ''Today 10:00'', None,
          Some ''http://olx/a''],
         [Some ''Lamp'', Some ''5'', None, None, None, Some ''http://olx/c'']]"
    by (simp add: save_defs two_records_def listing_dict_def w_with_images_def w0_def
          example_env_def disk_ok_def)
  have missing: "\<not> savable ?E w0 (two_records ! 0)"
    by (simp add: savable_def two_records_def loadable_def listing_dict_def w0_def)
  then have some: "\<exists>r \<in> set two_records. \<not> savable ?E w0 r"
    by (auto simp: two_records_def)
  have raised: "save_to_excel ?E two_records ''ad_data_with_images.xlsx'' w0
      = (Inl (FileNotFoundError ''images/Red_bike.jpg''), w0)"
    by (simp add: save_defs two_records_def listing_dict_def w0_def example_env_def)
  from save_to_excel_rows
      [of two_records ?E w_with_images "''ad_data_with_images.xlsx''" "''Lamp''"]
    save_to_excel_rows [of two_records ?E w0 "''ad_data_with_images.xlsx''" "''Lamp''"]
    all target some records saved missing raised
  show ?thesis by simp
qed

text \<open>The claim as stated fails for a record whose image file is not on disk and for a
  record whose name holds a control character: the call raises, and no spreadsheet is
  produced. And where a spreadsheet is produced, an empty Location is not saved
  verbatim: the cell has no value.\<close>

theorem save_to_excel_raises_counterexample:
  "fst (save_to_excel (example_env image_server disk_ok plain_site)
          [listing_dict ''Lamp'' ''5'' [] [] ''images/Lamp.jpg'' ''http://olx/c'']
          ''ad_data_with_images.xlsx'' w0)
     = Inl (FileNotFoundError ''images/Lamp.jpg'')
   \<and> fs (snd (save_to_excel (example_env image_server disk_ok plain_site)
          [listing_dict ''Lamp'' ''5'' [] [] ''images/Lamp.jpg'' ''http://olx/c'']
          ''ad_data_with_images.xlsx'' w0)) ''ad_data_with_images.xlsx'' = None
   \<and> loadable (example_env image_server disk_ok plain_site) w_with_bell bell_record
   \<and> save_to_excel (example_env image_server disk_ok plain_site) [bell_record]
          ''ad_data_with_images.xlsx'' w_with_bell
     = (Inl (IllegalCharacterError (''Bell'' @ [CHR 0x07])), w_with_bell)
   \<and> two_records ! 1 = listing_dict ''Lamp'' ''5'' [] [] ''images/Lamp.jpg'' ''http://olx/c''
   \<and> saved_rows (snd (save_to_excel (example_env image_server disk_ok plain_site) two_records
          ''ad_data_with_images.xlsx'' w_with_images)) ''ad_data_with_images.xlsx'' ! 2 ! 2
     = None"
  by (simp add: save_defs two_records_def bell_record_def w_with_bell_def loadable_def
        listing_dict_def w_with_images_def w0_def example_env_def disk_ok_def)

section \<open>Properties of main\<close>

lemma get_user_input_raises: "get_user_input w = (Inl e, w') \<Longrightarrow> e = EOFError"
  by (auto simp: get_user_input_def input_def Let_def split: list.splits if_splits)

lemma card_failure_skipped:
  assumes "extract_card c = Inl e"
  shows "process_card E c data w = (data, print (ErrorProcessingCard e) (emit CardSeen w))"
    and "scrape_cards E (c # rest) data w
         = scrape_cards E rest data (print (ErrorProcessingCard e) (emit CardSeen w))"
  using assms by (simp_all add: process_card_def Let_def)

lemma card_download_raise_skipped:
  assumes "extract_card c = Inr (name, price, location, timeposted, image_url, ad_url)"
    and "download_image E image_url (img_filename_of (os_name E) name) RETRIES DELAY
           (emit CardSeen w)
         = (Inl e, w1)"
  shows "scrape_cards E (c # rest) data w
         = scrape_cards E rest data (print (ErrorProcessingCard e) w1)"
  using assms by (simp add: process_card_def Let_def)

lemma main_started:
  assumes "get_user_input w = (Inr websitelink, v1)" and "edge_starts E"
  shows "main E w
         = (case scrape_olx E websitelink (emit StartEdge v1) of
              None \<Rightarrow> None
            | Some (Inl e, w3) \<Rightarrow> Some (Inl e, emit Quit w3)
            | Some (Inr data, w3) \<Rightarrow>
                (case save_to_excel E data ''ad_data_with_images.xlsx'' w3 of
                   (Inl e, w4) \<Rightarrow> Some (Inl e, emit Quit w4)
                 | (Inr _, w4) \<Rightarrow> Some (Inr (), emit Quit w4)))"
  using assms by (simp add: main_def Let_def)

lemma main_quits:
  assumes "main E w = Some (res, w')" and "get_user_input w = (Inr websitelink, v1)"
    and "edge_starts E"
  shows "\<exists>v. w' = emit Quit v"
proof (cases "scrape_olx E websitelink (emit StartEdge v1)")
  case None
  with assms show ?thesis by (simp add: main_started)
next
  case (Some x)
  obtain r3 v3 where x: "x = (r3, v3)" by (cases x)
  show ?thesis
  proof (cases r3)
    case (Inl e)
    with assms Some x show ?thesis by (auto simp: main_started)
  next
    case (Inr records)
    obtain r4 v4 where
      save: "save_to_excel E records ''ad_data_with_images.xlsx'' v3 = (r4, v4)"
      by (cases "save_to_excel E records ''ad_data_with_images.xlsx'' v3")
    with assms Some x Inr show ?thesis
      by (cases r4) (auto simp: main_started)
  qed
qed

lemma main_quits_last:
  assumes "main E w = Some (res, w')" and "edge_starts E" and "res \<noteq> Inl EOFError"
  shows "last (trace w') = Quit"
proof (cases "get_user_input w")
  case (Pair r1 v1)
  show ?thesis
  proof (cases r1)
    case (Inl e')
    with assms(1) Pair have "res = Inl e'" by (simp add: main_def)
    with get_user_input_raises [of w e' v1] Pair Inl assms(3) show ?thesis by simp
  next
    case (Inr websitelink)
    with assms(1,2) Pair main_quits [of E w res w' websitelink v1]
    have "\<exists>v. w' = emit Quit v" by simp
    then show ?thesis by (auto simp: emit_def)
  qed
qed

text \<open>No statement of \<^verbatim>\<open>main\<close>, of \<^verbatim>\<open>scrape_olx\<close> outside the card loop's \<^verbatim>\<open>try\<close>, or of
  the loading of a page has a handler: what a step raises, the function raises.\<close>

lemma main_propagates:
  shows "get_user_input w = (Inl e, v1) \<Longrightarrow> main E w = Some (Inl e, v1)"
    and "get_user_input w = (Inr link, v1) \<Longrightarrow> \<not> edge_starts E \<Longrightarrow>
         main E w = Some (Inl SessionNotCreatedException, emit StartEdge v1)"
    and "get_user_input w = (Inr link, v1) \<Longrightarrow> edge_starts E \<Longrightarrow>
         scrape_olx E link (emit StartEdge v1) = Some (Inl e, v3) \<Longrightarrow>
         main E w = Some (Inl e, emit Quit v3)"
    and "get_user_input w = (Inr link, v1) \<Longrightarrow> edge_starts E \<Longrightarrow>
         scrape_olx E link (emit StartEdge v1) = Some (Inr records, v3) \<Longrightarrow>
         save_to_excel E records ''ad_data_with_images.xlsx'' v3 = (Inl e, v4) \<Longrightarrow>
         main E w = Some (Inl e, emit Quit v4)"
  by (simp_all add: main_def Let_def)

lemma get_wait_scroll_propagates:
  shows "driver_get E url g = (Inl e, g1) \<Longrightarrow> get_wait_scroll E url g = Some (Inl e, g1)"
    and "driver_get E url g = (Inr (), g1) \<Longrightarrow> wait_for_cards E g1 = (Inl e, g2) \<Longrightarrow>
         get_wait_scroll E url g = Some (Inl e, g2)"
    and "driver_get E url g = (Inr (), g1) \<Longrightarrow> wait_for_cards E g1 = (Inr (), g2) \<Longrightarrow>
         slow_scroll_page E SCROLL_PAUSE_TIME g2 = Some (Inl e, g3) \<Longrightarrow>
         get_wait_scroll E url g = Some (Inl e, g3)"
  by (simp_all add: get_wait_scroll_def)

lemma scrape_olx_propagates:
  shows "get_wait_scroll E link u = Some (Inl e, u1) \<Longrightarrow>
         scrape_olx E link u = Some (Inl e, u1)"
    and "get_wait_scroll E link u = Some (Inr (), u1) \<Longrightarrow>
         find_pagination E u1 = (Inl e, u2) \<Longrightarrow>
         scrape_olx E link u = Some (Inl e, u2)"
    and "get_wait_scroll E link u = Some (Inr (), u1) \<Longrightarrow>
         find_pagination E u1 = (Inr pages, u2) \<Longrightarrow> number_of_pages E pages = Inl e \<Longrightarrow>
         scrape_olx E link u = Some (Inl e, u2)"
    and "get_wait_scroll E link u = Some (Inr (), u1) \<Longrightarrow>
         find_pagination E u1 = (Inr pages, u2) \<Longrightarrow> number_of_pages E pages = Inr n \<Longrightarrow>
         makedirs IMAGE_DIR u2 = (Inl e, u3) \<Longrightarrow>
         scrape_olx E link u = Some (Inl e, u3)"
    and "get_wait_scroll E link u = Some (Inr (), u1) \<Longrightarrow>
         find_pagination E u1 = (Inr pages, u2) \<Longrightarrow> number_of_pages E pages = Inr n \<Longrightarrow>
         makedirs IMAGE_DIR u2 = (Inr (), u3) \<Longrightarrow>
         scrape_pages E link n [1..n] [] u3 = Some (Inl e, u4) \<Longrightarrow>
         scrape_olx E link u = Some (Inl e, u4)"
  by (simp_all add: scrape_olx_def)

lemma scrape_pages_propagates:
  shows "find_cards E p = (Inl e, p0) \<Longrightarrow>
         scrape_pages E link n (page # pending) data p = Some (Inl e, p0)"
    and "find_cards E p = (Inr cs, p0) \<Longrightarrow> scrape_cards E cs data p0 = (data1, p1) \<Longrightarrow>
         page < n \<Longrightarrow>
         get_wait_scroll E (link @ ''&page='' @ str_int (page + 1)) p1 = Some (Inl e, p2) \<Longrightarrow>
         scrape_pages E link n (page # pending) data p = Some (Inl e, p2)"
  by simp_all

lemma finished_with: "map_option fst x = Some r \<Longrightarrow> x = Some (r, final_world x w)"
  by (cases x) (auto simp: final_world_def)

lemma lower_N: "lower ''N'' = ''n''"
  by code_simp

lemmas main_simps = main_def get_user_input_def input_def lower_N w_user_def
  no_results_site_def save_defs run_simps

lemma user_asks_for_bikes:
  "get_user_input w_user = (Inr bike_link, snd (get_user_input w_user))"
  by (simp add: get_user_input_def input_def lower_N w_user_def w0_def bike_link_def emit_def
        Let_def)

lemma bell_run_aborts:
  "map_option fst bell_run = Some (Inl (IllegalCharacterError (''Bell'' @ [CHR 0x07])))"
  by (simp add: bell_run_def bell_site_def card_bell_def main_simps)

lemma crash_run_aborts: "map_option fst crash_run = Some (Inl WebDriverException)"
  by (simp add: crash_run_def crashed_env_def main_simps)

text \<open>
  C7, as amended. A card whose extraction fails is skipped: its iteration leaves the
  records as they were, prints the error, and the loop goes on with the next card; the
  same holds for a card whose image download raises. A failure outside the card loop's
  \<^verbatim>\<open>try\<close> aborts the run. \<^verbatim>\<open>main\<close> raises what \<^verbatim>\<open>get_user_input\<close>, the start of the driver,
  \<^verbatim>\<open>scrape_olx\<close> or \<^verbatim>\<open>save_to_excel\<close> raises. \<^verbatim>\<open>scrape_olx\<close> raises what the loading of a
  page (\<^verbatim>\<open>driver.get\<close>, the wait for cards, the scrolling), the lookup of the pagination
  items, the reading of the page count, the creation of the image directory, the lookup
  of the cards of a page or the loading of the next page raises. Once the driver has
  started, \<^verbatim>\<open>driver.quit()\<close> is the last call of the run, aborted or not.
\<close>

theorem outer_failures_abort:
  "(extract_card c = Inl e0 \<longrightarrow>
      process_card E c data w0' = (data, print (ErrorProcessingCard e0) (emit CardSeen w0'))
      \<and> scrape_cards E (c # rest) data w0'
        = scrape_cards E rest data (print (ErrorProcessingCard e0) (emit CardSeen w0')))
   \<and> (extract_card c2 = Inr (name, price, location, timeposted, image_url, ad_url)
      \<and> download_image E image_url (img_filename_of (os_name E) name) RETRIES DELAY
          (emit CardSeen w0')
        = (Inl e1, w1) \<longrightarrow>
      scrape_cards E (c2 # rest) data w0'
        = scrape_cards E rest data (print (ErrorProcessingCard e1) w1))
   \<and> (get_user_input w = (Inl e, v1) \<longrightarrow> main E w = Some (Inl e, v1))
   \<and> (get_user_input w = (Inr link, v1) \<and> \<not> edge_starts E \<longrightarrow>
      main E w = Some (Inl SessionNotCreatedException, emit StartEdge v1))
   \<and> (get_user_input w = (Inr link, v1) \<and> edge_starts E
      \<and> scrape_olx E link (emit StartEdge v1) = Some (Inl e, v3) \<longrightarrow>
      main E w = Some (Inl e, emit Quit v3))
   \<and> (get_user_input w = (Inr link, v1) \<and> edge_starts E
      \<and> scrape_olx E link (emit StartEdge v1) = Some (Inr records, v3)
      \<and> save_to_excel E records ''ad_data_with_images.xlsx'' v3 = (Inl e, v4) \<longrightarrow>
      main E w = Some (Inl e, emit Quit v4))
   \<and> (driver_get E url g = (Inl e, g1) \<longrightarrow> get_wait_scroll E url g = Some (Inl e, g1))
   \<and> (driver_get E url g = (Inr (), g1) \<and> wait_for_cards E g1 = (Inl e, g2) \<longrightarrow>
      get_wait_scroll E url g = Some (Inl e, g2))
   \<and> (driver_get E url g = (Inr (), g1) \<and> wait_for_cards E g1 = (Inr (), g2)
      \<and> slow_scroll_page E SCROLL_PAUSE_TIME g2 = Some (Inl e, g3) \<longrightarrow>
      get_wait_scroll E url g = Some (Inl e, g3))
   \<and> (get_wait_scroll E link u = Some (Inl e, u1) \<longrightarrow>
      scrape_olx E link u = Some (Inl e, u1))
   \<and> (get_wait_scroll E link u = Some (Inr (), u1) \<and> find_pagination E u1 = (Inl e, u2) \<longrightarrow>
      scrape_olx E link u = Some (Inl e, u2))
   \<and> (get_wait_scroll E link u = Some (Inr (), u1) \<and> find_pagination E u1 = (Inr pages, u2)
      \<and> number_of_pages E pages = Inl e \<longrightarrow>
      scrape_olx E link u = Some (Inl e, u2))
   \<and> (get_wait_scroll E link u = Some (Inr (), u1) \<and> find_pagination E u1 = (Inr pages, u2)
      \<and> number_of_pages E pages = Inr n \<and> makedirs IMAGE_DIR u2 = (Inl e, u3) \<longrightarrow>
      scrape_olx E link u = Some (Inl e, u3))
   \<and> (get_wait_scroll E link u = Some (Inr (), u1) \<and> find_pagination E u1 = (Inr pages, u2)
      \<and> number_of_pages E pages = Inr n \<and> makedirs IMAGE_DIR u2 = (Inr (), u3)
      \<and> scrape_pages E link n [1..n] [] u3 = Some (Inl e, u4) \<longrightarrow>
      scrape_olx E link u = Some (Inl e, u4))
   \<and> (find_cards E p = (Inl e, p0) \<longrightarrow>
      scrape_pages E link n (page # pending) data p = Some (Inl e, p0))
   \<and> (find_cards E p = (Inr cs, p0) \<and> scrape_cards E cs data p0 = (data1, p1) \<and> page < n
      \<and> get_wait_scroll E (link @ ''&page='' @ str_int (page + 1)) p1 = Some (Inl e, p2) \<longrightarrow>
      scrape_pages E link n (page # pending) data p = Some (Inl e, p2))
   \<and> (main E w = Some (res, w') \<and> edge_starts E \<and> res \<noteq> Inl EOFError \<longrightarrow>
      last (trace w') = Quit)"
proof -
  have skipped: "extract_card c = Inl e0 \<longrightarrow>
      process_card E c data w0' = (data, print (ErrorProcessingCard e0) (emit CardSeen w0'))
      \<and> scrape_cards E (c # rest) data w0'
        = scrape_cards E rest data (print (ErrorProcessingCard e0) (emit CardSeen w0'))"
    by (simp add: card_failure_skipped)
  have raised: "extract_card c2 = Inr (name, price, location, timeposted, image_url, ad_url)
      \<and> download_image E image_url (img_filename_of (os_name E) name) RETRIES DELAY
          (emit CardSeen w0')
        = (Inl e1, w1) \<longrightarrow>
      scrape_cards E (c2 # rest) data w0'
        = scrape_cards E rest data (print (ErrorProcessingCard e1) w1)"
    using card_download_raise_skipped by blast
  have quits: "main E w = Some (res, w') \<and> edge_starts E \<and> res \<noteq> Inl EOFError \<longrightarrow>
      last (trace w') = Quit"
    using main_quits_last by blast
  show ?thesis
    apply (intro conjI)
    using skipped apply blast
    using raised apply blast
    apply (blast intro: main_propagates(1))
    apply (blast intro: main_propagates(2))
    apply (blast intro: main_propagates(3))
    apply (blast intro: main_propagates(4))
    apply (blast intro: get_wait_scroll_propagates(1))
    apply (blast intro: get_wait_scroll_propagates(2))
    apply (blast intro: get_wait_scroll_propagates(3))
    apply (blast intro: scrape_olx_propagates(1))
    apply (blast intro: scrape_olx_propagates(2))
    apply (blast intro: scrape_olx_propagates(3))
    apply (blast intro: scrape_olx_propagates(4))
    apply (blast intro: scrape_olx_propagates(5))
    apply (blast intro: scrape_pages_propagates(1))
    apply (blast intro: scrape_pages_propagates(2))
    using quits apply blast
    done
qed

theorem outer_failures_abort_witness:
  "extract_card card_b = Inl no_price
   \<and> process_card crashed_env card_b [] w0
      = ([], print (ErrorProcessingCard no_price) (emit CardSeen w0))
   \<and> extract_card card_c
      = Inr (''Lamp'', ''5'', '''', '''', ''http://img/c.jpg'', ''http://olx/c'')
   \<and> fst (download_image crashed_env ''http://img/c.jpg''
             (img_filename_of (os_name crashed_env) ''Lamp'') RETRIES DELAY (emit CardSeen w0))
      = Inl (OSError ''images/Lamp.jpg'')
   \<and> scrape_cards crashed_env [card_c] [] w0
      = ([], print (ErrorProcessingCard (OSError ''images/Lamp.jpg''))
               (snd (download_image crashed_env ''http://img/c.jpg''
                       (img_filename_of (os_name crashed_env) ''Lamp'') RETRIES DELAY
                       (emit CardSeen w0))))
   \<and> get_user_input w_user = (Inr bike_link, snd (get_user_input w_user))
   \<and> edge_starts crashed_env
   \<and> fst (driver_get crashed_env bike_link (emit StartEdge (snd (get_user_input w_user))))
      = Inl WebDriverException
   \<and> main crashed_env w_user
      = Some (Inl WebDriverException,
              emit Quit (snd (driver_get crashed_env bike_link
                                (emit StartEdge (snd (get_user_input w_user))))))
   \<and> last (trace (emit Quit (snd (driver_get crashed_env bike_link
                                (emit StartEdge (snd (get_user_input w_user))))))) = Quit
   \<and> get_user_input w0 = (Inl EOFError, snd (get_user_input w0))
   \<and> main crashed_env w0 = Some (Inl EOFError, snd (get_user_input w0))
   \<and> \<not> edge_starts no_edge_env
   \<and> main no_edge_env w_user
      = Some (Inl SessionNotCreatedException, emit StartEdge (snd (get_user_input w_user)))
   \<and> has_returned (scrape_olx (example_env image_server disk_ok bell_site) bike_link
                      (emit StartEdge (snd (get_user_input w_user))))
   \<and> map_option fst (main (example_env image_server disk_ok bell_site) w_user)
      = Some (Inl (IllegalCharacterError (''Bell'' @ [CHR 0x07])))
   \<and> fst (wait_for_cards (example_env image_server disk_ok no_results_site)
             (snd (driver_get (example_env image_server disk_ok no_results_site)
                     ''http://olx/q'' w0)))
      = Inl TimeoutException
   \<and> map_option fst (scrape_olx (example_env image_server disk_ok no_results_site)
                        ''http://olx/q'' w0)
      = Some (Inl TimeoutException)
   \<and> map_option fst (get_wait_scroll (faulty_env 2) ''http://olx/q'' w0)
      = Some (Inl WebDriverException)
   \<and> map_option fst (get_wait_scroll (faulty_env 7) ''http://olx/q'' w0) = Some (Inr ())
   \<and> map_option fst (scrape_olx (faulty_env 7) ''http://olx/q'' w0)
      = Some (Inl WebDriverException)
   \<and> number_of_pages (example_env image_server disk_ok next_site) [''1'', ''Next'']
      = Inl (ValueError ''Next'')
   \<and> map_option fst (scrape_olx (example_env image_server disk_ok next_site)
                        ''http://olx/q'' w0)
      = Some (Inl (ValueError ''Next''))
   \<and> map_option fst (scrape_olx (example_env image_server disk_ok plain_site)
                        ''http://olx/q'' w_images_file)
      = Some (Inl (FileExistsError ''images''))
   \<and> map_option fst (scrape_olx (faulty_env 8) ''http://olx/q'' w0)
      = Some (Inl WebDriverException)
   \<and> map_option fst (scrape_olx (example_env image_server disk_ok short_site)
                        ''http://olx/q'' w0)
      = Some (Inl TimeoutException)"
proof -
  let ?v1 = "snd (get_user_input w_user)"
  let ?g = "emit StartEdge ?v1"
  let ?g1 = "snd (driver_get crashed_env bike_link ?g)"
  let ?dl = "download_image crashed_env ''http://img/c.jpg''
               (img_filename_of (os_name crashed_env) ''Lamp'') RETRIES DELAY (emit CardSeen w0)"
  let ?B = "example_env image_server disk_ok bell_site"
  let ?scrape = "scrape_olx ?B bike_link ?g"
  let ?save = "save_to_excel ?B (returned ?scrape) ''ad_data_with_images.xlsx''
                 (final_world ?scrape w0)"
  let ?q = "''http://olx/q''"
  note user = get_user_input_def input_def lower_N w_user_def bike_link_def
  text \<open>Cards that fail, a browser that fails at once, input that ends, a driver that does
    not start.\<close>
  have missing: "extract_card card_b = Inl no_price"
    by (simp add: extract_card_def find_element_def card_b_def no_price_def)
  have lamp: "extract_card card_c
      = Inr (''Lamp'', ''5'', '''', '''', ''http://img/c.jpg'', ''http://olx/c'')"
    by (simp add: extract_card_def find_element_def card_c_def str_split_def Let_def)
  have unwritable: "fst ?dl = Inl (OSError ''images/Lamp.jpg'')"
    by (simp add: crashed_env_def disk_read_only_def run_simps)
  then have download: "?dl = (Inl (OSError ''images/Lamp.jpg''), snd ?dl)"
    by (simp add: prod_eq_iff)
  have asked: "get_user_input w_user = (Inr bike_link, ?v1)"
    by (rule user_asks_for_bikes)
  have started: "edge_starts crashed_env" "edge_starts ?B" "\<not> edge_starts no_edge_env"
    by (simp_all add: crashed_env_def no_edge_env_def example_env_def)
  have crashed: "fst (driver_get crashed_env bike_link ?g) = Inl WebDriverException"
    by (simp add: crashed_env_def driver_get_def driver_command_def emit_def Let_def
          example_env_def get_user_input_def input_def lower_N w_user_def w0_def)
  then have load: "driver_get crashed_env bike_link ?g = (Inl WebDriverException, ?g1)"
    by (simp add: prod_eq_iff)
  have silent: "get_user_input w0 = (Inl EOFError, snd (get_user_input w0))"
    by (simp add: get_user_input_def input_def w0_def emit_def Let_def)
  note crash = outer_failures_abort
    [where c = card_b and ?e0.0 = no_price and E = crashed_env and data = "[]" and ?w0' = w0
       and rest = "[]" and ?c2.0 = card_c and name = "''Lamp''" and price = "''5''"
       and location = "''''" and timeposted = "''''" and image_url = "''http://img/c.jpg''"
       and ad_url = "''http://olx/c''" and ?e1.0 = "OSError ''images/Lamp.jpg''"
       and ?w1.0 = "snd ?dl" and w = w_user and link = bike_link and ?v1.0 = ?v1
       and e = WebDriverException and ?v3.0 = ?g1 and url = bike_link and g = ?g
       and ?g1.0 = ?g1 and u = ?g and ?u1.0 = ?g1
       and res = "Inl WebDriverException" and w' = "emit Quit ?g1"]
  from crash missing lamp download asked started(1) load
  have first: "process_card crashed_env card_b [] w0
        = ([], print (ErrorProcessingCard no_price) (emit CardSeen w0))"
    "scrape_cards crashed_env [card_c] [] w0
        = ([], print (ErrorProcessingCard (OSError ''images/Lamp.jpg'')) (snd ?dl))"
    "main crashed_env w_user = Some (Inl WebDriverException, emit Quit ?g1)"
    by simp_all
  from crash first(3) started(1)
  have last: "last (trace (emit Quit ?g1)) = Quit" by simp
  from outer_failures_abort
    [where E = crashed_env and w = w0 and e = EOFError and ?v1.0 = "snd (get_user_input w0)"]
    silent
  have second: "main crashed_env w0 = Some (Inl EOFError, snd (get_user_input w0))"
    by simp
  from outer_failures_abort
    [where E = no_edge_env and w = w_user and link = bike_link and ?v1.0 = ?v1]
    asked started(3)
  have unstarted: "main no_edge_env w_user
      = Some (Inl SessionNotCreatedException, emit StartEdge ?v1)"
    by simp
  text \<open>A name that the workbook refuses.\<close>
  have scraped: "has_returned ?scrape"
    by (simp add: bell_site_def card_bell_def user run_simps)
  from returned_run [OF this, of w0]
  have records: "?scrape = Some (Inr (returned ?scrape), final_world ?scrape w0)" .
  have refused: "fst ?save = Inl (IllegalCharacterError (''Bell'' @ [CHR 0x07]))"
    by (simp add: bell_site_def card_bell_def user save_defs run_simps)
  then have save: "?save = (Inl (IllegalCharacterError (''Bell'' @ [CHR 0x07])), snd ?save)"
    by (simp add: prod_eq_iff)
  from outer_failures_abort
    [where E = ?B and w = w_user and link = bike_link and ?v1.0 = ?v1
       and records = "returned ?scrape" and ?v3.0 = "final_world ?scrape w0"
       and e = "IllegalCharacterError (''Bell'' @ [CHR 0x07])" and ?v4.0 = "snd ?save"]
    asked started(2) records save
  have third: "map_option fst (main ?B w_user)
      = Some (Inl (IllegalCharacterError (''Bell'' @ [CHR 0x07])))"
    by simp
  text \<open>A search without results: the wait for cards times out.\<close>
  let ?N = "example_env image_server disk_ok no_results_site"
  let ?n1 = "snd (driver_get ?N ?q w0)"
  let ?n2 = "snd (wait_for_cards ?N ?n1)"
  have n1': "fst (driver_get ?N ?q w0) = Inr ()"
    by (simp add: no_results_site_def run_simps)
  from n1' have n1: "driver_get ?N ?q w0 = (Inr (), ?n1)" by (simp add: prod_eq_iff)
  have timeout: "fst (wait_for_cards ?N ?n1) = Inl TimeoutException"
    by (simp add: no_results_site_def run_simps)
  then have n2: "wait_for_cards ?N ?n1 = (Inl TimeoutException, ?n2)"
    by (simp add: prod_eq_iff)
  from outer_failures_abort
    [where E = ?N and url = ?q and g = w0 and ?g1.0 = ?n1 and ?g2.0 = ?n2
       and e = TimeoutException and link = ?q and u = w0 and ?u1.0 = ?n2] n1 n2 n1' timeout
  have fourth: "map_option fst (scrape_olx ?N ?q w0) = Some (Inl TimeoutException)"
    by simp
  text \<open>A browser that fails while the page is scrolled.\<close>
  let ?F2 = "faulty_env 2"
  let ?s1 = "snd (driver_get ?F2 ?q w0)"
  let ?s2 = "snd (wait_for_cards ?F2 ?s1)"
  let ?scroll = "slow_scroll_page ?F2 SCROLL_PAUSE_TIME ?s2"
  have s1': "fst (driver_get ?F2 ?q w0) = Inr ()"
    by (simp add: faulty_env_def run_simps)
  from s1' have s1: "driver_get ?F2 ?q w0 = (Inr (), ?s1)" by (simp add: prod_eq_iff)
  have s2': "fst (wait_for_cards ?F2 ?s1) = Inr ()"
    by (simp add: faulty_env_def run_simps)
  from s2' have s2: "wait_for_cards ?F2 ?s1 = (Inr (), ?s2)" by (simp add: prod_eq_iff)
  have s3': "map_option fst ?scroll = Some (Inl WebDriverException)"
    by (simp add: faulty_env_def run_simps)
  from finished_with [OF s3', of w0]
  have s3: "?scroll = Some (Inl WebDriverException, final_world ?scroll w0)" .
  from outer_failures_abort
    [where E = ?F2 and url = ?q and g = w0 and ?g1.0 = ?s1 and ?g2.0 = ?s2
       and ?g3.0 = "final_world ?scroll w0" and e = WebDriverException] s1 s2 s3 s1' s2' s3'
  have fifth: "map_option fst (get_wait_scroll ?F2 ?q w0) = Some (Inl WebDriverException)"
    by simp
  text \<open>A browser that fails when the pagination items are looked up.\<close>
  let ?F7 = "faulty_env 7"
  let ?load7 = "get_wait_scroll ?F7 ?q w0"
  let ?a1 = "final_world ?load7 w0"
  have loaded7: "map_option fst ?load7 = Some (Inr ())"
    by (simp add: faulty_env_def run_simps)
  from finished_with [OF this, of w0] have a1: "?load7 = Some (Inr (), ?a1)" .
  have a2': "fst (find_pagination ?F7 ?a1) = Inl WebDriverException"
    by (simp add: faulty_env_def run_simps)
  from a2' have a2: "find_pagination ?F7 ?a1 = (Inl WebDriverException, snd (find_pagination ?F7 ?a1))"
    by (simp add: prod_eq_iff)
  from outer_failures_abort
    [where E = ?F7 and link = ?q and u = w0 and ?u1.0 = ?a1
       and ?u2.0 = "snd (find_pagination ?F7 ?a1)" and e = WebDriverException] a1 a2 loaded7 a2'
  have sixth: "map_option fst (scrape_olx ?F7 ?q w0) = Some (Inl WebDriverException)"
    by simp
  text \<open>A page count that is not a number.\<close>
  let ?X = "example_env image_server disk_ok next_site"
  let ?loadX = "get_wait_scroll ?X ?q w0"
  let ?b1 = "final_world ?loadX w0"
  have b1': "map_option fst ?loadX = Some (Inr ())"
    by (simp add: next_site_def run_simps)
  from finished_with [OF b1', of w0] have b1: "?loadX = Some (Inr (), ?b1)" .
  have b2': "fst (find_pagination ?X ?b1) = Inr [''1'', ''Next'']"
    by (simp add: next_site_def run_simps)
  from b2' have b2: "find_pagination ?X ?b1 = (Inr [''1'', ''Next''], snd (find_pagination ?X ?b1))"
    by (simp add: prod_eq_iff)
  have unreadable: "number_of_pages ?X [''1'', ''Next''] = Inl (ValueError ''Next'')"
    by (simp add: number_of_pages_def example_env_def decimal_def)
  from outer_failures_abort
    [where E = ?X and link = ?q and u = w0 and ?u1.0 = ?b1
       and ?u2.0 = "snd (find_pagination ?X ?b1)" and pages = "[''1'', ''Next'']"
       and e = "ValueError ''Next''"] b1 b2 unreadable b1' b2'
  have seventh: "map_option fst (scrape_olx ?X ?q w0) = Some (Inl (ValueError ''Next''))"
    by simp
  text \<open>An image directory that is a file.\<close>
  let ?P = "example_env image_server disk_ok plain_site"
  let ?loadP = "get_wait_scroll ?P ?q w_images_file"
  let ?c1 = "final_world ?loadP w0"
  let ?c2 = "snd (find_pagination ?P ?c1)"
  have c1': "map_option fst ?loadP = Some (Inr ())"
    by (simp add: w_images_file_def run_simps)
  from finished_with [OF c1', of w0] have c1: "?loadP = Some (Inr (), ?c1)" .
  have c2': "fst (find_pagination ?P ?c1) = Inr []"
    by (simp add: w_images_file_def run_simps)
  from c2' have c2: "find_pagination ?P ?c1 = (Inr [], ?c2)" by (simp add: prod_eq_iff)
  have one: "number_of_pages E' [] = Inr 1" for E'
    by (simp add: number_of_pages_def)
  have c3': "fst (makedirs IMAGE_DIR ?c2) = Inl (FileExistsError ''images'')"
    by (simp add: w_images_file_def run_simps)
  from c3' have c3: "makedirs IMAGE_DIR ?c2
      = (Inl (FileExistsError ''images''), snd (makedirs IMAGE_DIR ?c2))"
    by (simp add: prod_eq_iff)
  from outer_failures_abort
    [where E = ?P and link = ?q and u = w_images_file and ?u1.0 = ?c1 and ?u2.0 = ?c2
       and pages = "[]" and n = 1 and ?u3.0 = "snd (makedirs IMAGE_DIR ?c2)"
       and e = "FileExistsError ''images''"] c1 c2 c3 one [of ?P] c1' c2' c3'
  have eighth: "map_option fst (scrape_olx ?P ?q w_images_file)
      = Some (Inl (FileExistsError ''images''))"
    by simp
  text \<open>A browser that fails when the cards of the page are looked up.\<close>
  let ?F8 = "faulty_env 8"
  let ?load8 = "get_wait_scroll ?F8 ?q w0"
  let ?d1 = "final_world ?load8 w0"
  let ?d2 = "snd (find_pagination ?F8 ?d1)"
  let ?d3 = "snd (makedirs IMAGE_DIR ?d2)"
  let ?d4 = "snd (find_cards ?F8 ?d3)"
  have d1': "map_option fst ?load8 = Some (Inr ())"
    by (simp add: faulty_env_def run_simps)
  from finished_with [OF d1', of w0] have d1: "?load8 = Some (Inr (), ?d1)" .
  have d2': "fst (find_pagination ?F8 ?d1) = Inr []"
    by (simp add: faulty_env_def run_simps)
  from d2' have d2: "find_pagination ?F8 ?d1 = (Inr [], ?d2)" by (simp add: prod_eq_iff)
  have d3': "fst (makedirs IMAGE_DIR ?d2) = Inr ()"
    by (simp add: faulty_env_def run_simps)
  from d3' have d3: "makedirs IMAGE_DIR ?d2 = (Inr (), ?d3)" by (simp add: prod_eq_iff)
  have d4': "fst (find_cards ?F8 ?d3) = Inl WebDriverException"
    by (simp add: faulty_env_def run_simps)
  from d4' have d4: "find_cards ?F8 ?d3 = (Inl WebDriverException, ?d4)"
    by (simp add: prod_eq_iff)
  note lookup = outer_failures_abort
    [where E = ?F8 and link = ?q and u = w0 and ?u1.0 = ?d1 and ?u2.0 = ?d2
       and pages = "[]" and n = 1 and ?u3.0 = ?d3 and ?u4.0 = ?d4 and p = ?d3 and ?p0.0 = ?d4
       and page = 1 and pending = "[]" and data = "[]" and e = WebDriverException]
  from lookup d4 d4' have "scrape_pages ?F8 ?q 1 [1..1] [] ?d3 = Some (Inl WebDriverException, ?d4)"
    by (simp add: pages_1_2)
  with lookup d1 d2 d3 one [of ?F8] d1' d2' d3' d4'
  have ninth: "map_option fst (scrape_olx ?F8 ?q w0) = Some (Inl WebDriverException)"
    by simp
  text \<open>A second page that does not exist.\<close>
  let ?S = "example_env image_server disk_ok short_site"
  let ?loadS = "get_wait_scroll ?S ?q w0"
  let ?e1 = "final_world ?loadS w0"
  let ?e2 = "snd (find_pagination ?S ?e1)"
  let ?e3 = "snd (makedirs IMAGE_DIR ?e2)"
  let ?e4 = "snd (find_cards ?S ?e3)"
  let ?cards = "scrape_cards ?S [card_a, card_b, card_c] [] ?e4"
  let ?next = "get_wait_scroll ?S (?q @ ''&page='' @ str_int (1 + 1)) (snd ?cards)"
  note short = short_site_def run_simps
  have e1': "map_option fst ?loadS = Some (Inr ())"
    by (simp add: short)
  from finished_with [OF e1', of w0] have e1: "?loadS = Some (Inr (), ?e1)" .
  have e2': "fst (find_pagination ?S ?e1) = Inr [''1'', ''2'']"
    by (simp add: short)
  from e2' have e2: "find_pagination ?S ?e1 = (Inr [''1'', ''2''], ?e2)" by (simp add: prod_eq_iff)
  have two: "number_of_pages ?S [''1'', ''2''] = Inr 2"
    by (simp add: number_of_pages_def example_env_def decimal_def)
  have e3': "fst (makedirs IMAGE_DIR ?e2) = Inr ()"
    by (simp add: short)
  from e3' have e3: "makedirs IMAGE_DIR ?e2 = (Inr (), ?e3)" by (simp add: prod_eq_iff)
  have e4': "fst (find_cards ?S ?e3) = Inr [card_a, card_b, card_c]"
    by (simp add: short)
  from e4' have e4: "find_cards ?S ?e3 = (Inr [card_a, card_b, card_c], ?e4)"
    by (simp add: prod_eq_iff)
  have e5: "?cards = (fst ?cards, snd ?cards)" by simp
  have e6': "map_option fst ?next = Some (Inl TimeoutException)"
    by (simp add: short)
  from finished_with [OF e6', of w0]
  have e6: "?next = Some (Inl TimeoutException, final_world ?next w0)" .
  note absent = outer_failures_abort
    [where E = ?S and link = ?q and u = w0 and ?u1.0 = ?e1 and ?u2.0 = ?e2
       and pages = "[''1'', ''2'']" and n = 2 and ?u3.0 = ?e3
       and ?u4.0 = "final_world ?next w0" and p = ?e3 and ?p0.0 = ?e4
       and cs = "[card_a, card_b, card_c]" and data = "[]" and ?data1.0 = "fst ?cards"
       and ?p1.0 = "snd ?cards" and page = 1 and pending = "[2]"
       and ?p2.0 = "final_world ?next w0" and e = TimeoutException]
  from absent e4 e5 e6 e4' e6'
  have "scrape_pages ?S ?q 2 [1..2] [] ?e3 = Some (Inl TimeoutException, final_world ?next w0)"
    by (simp add: pages_1_2)
  with absent e1 e2 two e3 e1' e2' e3' e6'
  have tenth: "map_option fst (scrape_olx ?S ?q w0) = Some (Inl TimeoutException)"
    by simp
  from missing lamp unwritable asked started(1,3) crashed silent scraped first last second
    unstarted third timeout fourth fifth loaded7 sixth unreadable seventh eighth ninth tenth
  show ?thesis by simp
qed

text \<open>The claim as stated fails on a search without results: the driver starts, no card
  appears within the wait, and the \<^verbatim>\<open>TimeoutException\<close> ends the run.\<close>

theorem no_results_abort_counterexample:
  "edge_starts (example_env image_server disk_ok no_results_site)
   \<and> map_option fst no_results_run = Some (Inl TimeoutException)"
  by (simp add: no_results_run_def main_simps)
end
